theory Spec2Isabelle
  imports Main "HOL-Library.Word"
begin

unbundle bit_operations_syntax

section \<open>Machine model\<close>

text \<open>
  The extractor is modelled for the usual x86 and amd64 C targets: plain \<^verbatim>\<open>char\<close> is a
  signed 8-bit integer and \<^verbatim>\<open>int\<close> is a 32-bit two's complement integer whose arithmetic
  wraps around. A byte of memory is an \<open>8 word\<close>; reading it through a \<^verbatim>\<open>char\<close> pointer
  gives its signed value (\<open>sint\<close>), and storing that in an \<^verbatim>\<open>int\<close> or \<^verbatim>\<open>unsigned\<close> variable
  sign-extends it (\<open>scast\<close>). A \<^verbatim>\<open>char const*\<close> argument is the list of the bytes found at
  the pointer and after it, so \<^verbatim>\<open>p + k\<close> is \<open>drop k p\<close>.
\<close>

type_synonym byte = "8 word"
type_synonym cint = "32 word"

subsection \<open>parseoct\<close>

text \<open>
  First loop of \<^verbatim>\<open>parseoct\<close>: skip bytes that are not octal digits while \<open>n > 0\<close>.
  The source reads \<^verbatim>\<open>p[0]\<close> before it tests \<open>n\<close>; the value read when \<open>n = 0\<close> has no
  influence. Where the modelled memory ends the loop stops.
\<close>

fun skip_nondigits :: "byte list \<Rightarrow> nat \<Rightarrow> byte list \<times> nat" where
  "skip_nondigits [] n = ([], n)"
| "skip_nondigits (c # p) n =
     (if (sint c < 48 \<or> sint c > 55) \<and> n > 0 then skip_nondigits p (n - 1) else (c # p, n))"

text \<open>
  Second loop: \<^verbatim>\<open>i = i << 3; h = p[0]; i = i + h - 48\<close> while the byte is an octal digit
  and \<open>n > 0\<close>.
\<close>

fun accum_digits :: "byte list \<Rightarrow> nat \<Rightarrow> cint \<Rightarrow> cint" where
  "accum_digits [] n i = i"
| "accum_digits (c # p) n i =
     (if sint c \<ge> 48 \<and> sint c \<le> 55 \<and> n > 0
      then accum_digits p (n - 1) (push_bit 3 i + scast c - 48)
      else i)"

definition parseoct :: "byte list \<Rightarrow> nat \<Rightarrow> cint" where
  "parseoct p n = (case skip_nondigits p n of (p', n') \<Rightarrow> accum_digits p' n' 0)"

text \<open>
  What the specification compares \<^verbatim>\<open>parseoct\<close> with: the standard base-8 value of a string
  of octal digit characters.
\<close>

definition is_octal_digit :: "byte \<Rightarrow> bool" where
  "is_octal_digit c = (48 \<le> unat c \<and> unat c \<le> 55)"

fun octal_value_from :: "nat \<Rightarrow> byte list \<Rightarrow> nat" where
  "octal_value_from acc [] = acc"
| "octal_value_from acc (c # cs) = octal_value_from (8 * acc + (unat c - 48)) cs"

definition octal_value :: "byte list \<Rightarrow> nat" where
  "octal_value cs = octal_value_from 0 cs"

subsection \<open>is_end_of_archive\<close>

text \<open>
  The loop \<^verbatim>\<open>for(n = 511; n >= 0; n = n - 1)\<close> with the counter \<open>k = n + 1\<close>: it returns
  FALSE at the first non-zero byte met from the top.
\<close>

fun zero_scan :: "byte list \<Rightarrow> nat \<Rightarrow> bool" where
  "zero_scan p 0 = True"
| "zero_scan p (Suc n) = (if p ! n \<noteq> 0 then False else zero_scan p n)"

definition is_end_of_archive :: "byte list \<Rightarrow> bool" where
  "is_end_of_archive p = zero_scan p 512"

subsection \<open>verify_checksum\<close>

text \<open>
  \<^verbatim>\<open>h = p[n]\<close> converts a plain \<^verbatim>\<open>char\<close> to \<^verbatim>\<open>unsigned\<close>: the signed value of the byte,
  taken modulo \<open>2 ^ 32\<close> (\<open>scast\<close>). \<^verbatim>\<open>u = u + h\<close> is then computed modulo \<open>2 ^ 32\<close>.
\<close>

function cksum_loop :: "byte list \<Rightarrow> nat \<Rightarrow> cint \<Rightarrow> cint" where
  "cksum_loop p n u =
     (if n < 512
      then cksum_loop p (n + 1) (if n < 148 \<or> n > 155 then u + scast (p ! n) else u + 0x20)
      else u)"
  by pat_completeness auto
termination
  by (relation "measure (\<lambda>(p, n, u). 512 - n)") auto

declare cksum_loop.simps [simp del]

definition verify_checksum :: "byte list \<Rightarrow> bool" where
  "verify_checksum p = (cksum_loop p 0 0 = parseoct (drop 148 p) 8)"

text \<open>
  What the specification compares the stored checksum with: the sum of the 512 bytes as
  unsigned values, the eight bytes of the checksum field counted as spaces.
\<close>

definition unsigned_sum :: "byte list \<Rightarrow> nat" where
  "unsigned_sum p =
     sum_list (map unat (take 148 p)) + 8 * 32 + sum_list (map unat (take 356 (drop 156 p)))"

section \<open>The environment\<close>

text \<open>
  The C library and the file system are outside the repository. They are modelled by a
  small deterministic world: the unread bytes of the archive stream, a file system keyed
  by path strings, the table of open output handles, a list of limits that says how many
  bytes each coming \<^verbatim>\<open>fwrite\<close> accepts (no limit when the list is empty), and the trace
  of the calls made so far.
\<close>

type_synonym path = "byte list"

datatype node = Dir cint | File "byte list"

datatype chan = Stdout | Stderr

datatype msg = Text string | Name "byte list" | Num nat

datatype event =
    Ev_fread nat
  | Ev_mkdir path cint bool
  | Ev_fopen path "nat option"
  | Ev_fwrite nat "byte list" nat
  | Ev_fclose nat
  | Ev_print chan msg

record world =
  stream :: "byte list"
  fs :: "path \<rightharpoonup> node"
  handles :: "(nat \<times> path) list"
  next_handle :: nat
  wlimit :: "nat list"
  trace :: "event list"

definition log :: "event \<Rightarrow> world \<Rightarrow> world" where
  "log e w = w\<lparr>trace := trace w @ [e]\<rparr>"

definition fputs :: "msg \<Rightarrow> chan \<Rightarrow> world \<Rightarrow> world" where
  "fputs m c w = log (Ev_print c m) w"

definition newline :: msg where
  "newline = Text [CHR 0x0A]"

definition puts :: "msg \<Rightarrow> world \<Rightarrow> world" where
  "puts m w = fputs newline Stdout (fputs m Stdout w)"

text \<open>
  \<^verbatim>\<open>fread(buff, 1, n, a)\<close>: the next bytes of the stream, at most \<open>n\<close>, overwrite the
  start of the buffer; the count is returned.
\<close>

definition fread :: "byte list \<Rightarrow> nat \<Rightarrow> world \<Rightarrow> nat \<times> byte list \<times> world" where
  "fread buff n w =
     (let d = take n (stream w)
      in (length d, d @ drop (length d) buff,
          log (Ev_fread (length d)) (w\<lparr>stream := drop n (stream w)\<rparr>)))"

text \<open>The directory part of a path: what stands before its last separator.\<close>

definition parent :: "path \<Rightarrow> path option" where
  "parent p =
     (if 0x2F \<in> set p then Some (rev (tl (dropWhile (\<lambda>c. c \<noteq> 0x2F) (rev p)))) else None)"

definition parent_ok :: "(path \<rightharpoonup> node) \<Rightarrow> path \<Rightarrow> bool" where
  "parent_ok m p =
     (case parent p of
        None \<Rightarrow> True
      | Some q \<Rightarrow> (case m q of Some (Dir _) \<Rightarrow> True | _ \<Rightarrow> False))"

text \<open>\<^verbatim>\<open>mkdir\<close> returns 0 when it has created the directory and -1 otherwise.\<close>

definition mkdir :: "path \<Rightarrow> cint \<Rightarrow> world \<Rightarrow> cint \<times> world" where
  "mkdir p mode w =
     (if p \<noteq> [] \<and> fs w p = None \<and> parent_ok (fs w) p
      then (0, log (Ev_mkdir p mode True) (w\<lparr>fs := (fs w)(p \<mapsto> Dir mode)\<rparr>))
      else (- 1, log (Ev_mkdir p mode False) w))"

text \<open>\<^verbatim>\<open>fopen(p, "w")\<close>: creates or truncates the file; \<open>None\<close> is the NULL handle.\<close>

definition fopen_w :: "path \<Rightarrow> world \<Rightarrow> nat option \<times> world" where
  "fopen_w p w =
     (if p \<noteq> [] \<and> (case fs w p of Some (Dir _) \<Rightarrow> False | _ \<Rightarrow> True) \<and> parent_ok (fs w) p
      then (Some (next_handle w),
            log (Ev_fopen p (Some (next_handle w)))
              (w\<lparr>fs := (fs w)(p \<mapsto> File []),
                 handles := (next_handle w, p) # handles w,
                 next_handle := Suc (next_handle w)\<rparr>))
      else (None, log (Ev_fopen p None) w))"

definition fwrite :: "nat \<Rightarrow> byte list \<Rightarrow> world \<Rightarrow> nat \<times> world" where
  "fwrite h d w =
     (let k = (case wlimit w of [] \<Rightarrow> length d | l # _ \<Rightarrow> min l (length d));
          fs' = (case map_of (handles w) h of
                   None \<Rightarrow> fs w
                 | Some p \<Rightarrow>
                     (case fs w p of
                        Some (File c) \<Rightarrow> (fs w)(p \<mapsto> File (c @ take k d))
                      | _ \<Rightarrow> fs w))
      in (k, log (Ev_fwrite h d k) (w\<lparr>fs := fs', wlimit := tl (wlimit w)\<rparr>)))"

definition fclose :: "nat \<Rightarrow> world \<Rightarrow> world" where
  "fclose h w = log (Ev_fclose h) (w\<lparr>handles := filter (\<lambda>(h', p). h' \<noteq> h) (handles w)\<rparr>)"

subsection \<open>C strings in a buffer\<close>

definition cstr :: "byte list \<Rightarrow> byte list" where
  "cstr s = takeWhile (\<lambda>c. c \<noteq> 0) s"

definition strlen :: "byte list \<Rightarrow> nat" where
  "strlen s = length (cstr s)"

text \<open>\<^verbatim>\<open>strrchr\<close>: the index of the last occurrence inside the string, or NULL.\<close>

fun strrchr_from :: "byte list \<Rightarrow> byte \<Rightarrow> nat \<Rightarrow> nat option \<Rightarrow> nat option" where
  "strrchr_from [] c i found = found"
| "strrchr_from (x # s) c i found =
     (if x = 0 then found else strrchr_from s c (Suc i) (if x = c then Some i else found))"

definition strrchr :: "byte list \<Rightarrow> byte \<Rightarrow> nat option" where
  "strrchr s c = strrchr_from s c 0 None"

lemma strrchr_from_bound:
  "strrchr_from s c i found = Some j \<Longrightarrow> found = Some j \<or> (i \<le> j \<and> j < i + strlen s \<and> s ! (j - i) = c)"
proof (induction s arbitrary: i found)
  case Nil
  then show ?case by simp
next
  case (Cons x s)
  show ?case
  proof (cases "x = 0")
    case True
    with Cons.prems show ?thesis by simp
  next
    case False
    with Cons.prems have "strrchr_from s c (Suc i) (if x = c then Some i else found) = Some j"
      by simp
    from Cons.IH[OF this] False show ?thesis
      by (auto simp: strlen_def cstr_def nth_Cons' split: if_splits)
  qed
qed

lemma strrchr_Some:
  "strrchr s c = Some j \<Longrightarrow> j < strlen s \<and> s ! j = c"
  using strrchr_from_bound[of s c 0 None j] by (simp add: strrchr_def)

lemma strlen_le_length: "strlen s \<le> length s"
  by (simp add: strlen_def cstr_def length_takeWhile_le)

lemma cstr_cut: "j < strlen s \<Longrightarrow> cstr (s[j := 0]) = take j s"
proof (induction s arbitrary: j)
  case Nil
  then show ?case by (simp add: strlen_def cstr_def)
next
  case (Cons x s)
  then show ?case
    by (cases j) (auto simp: strlen_def cstr_def split: if_splits)
qed

lemma strlen_cut: "j < strlen s \<Longrightarrow> strlen (s[j := 0]) = j"
  using strlen_le_length[of s] by (simp add: strlen_def cstr_cut)

section \<open>The file system materializer\<close>

definition report_failure :: "byte list \<Rightarrow> world \<Rightarrow> world" where
  "report_failure pathname w =
     fputs newline Stderr
       (fputs (Name (cstr pathname)) Stderr
          (fputs (Text ''Could not create directory '') Stderr w))"

text \<open>
  \<^verbatim>\<open>create_dir\<close> works in place on the caller's buffer, so the model returns the buffer
  with the world. Its first statement strips a trailing separator:
  \<^verbatim>\<open>if(pathname[strlen(pathname) - 1] == '/') pathname[strlen(pathname) - 1] = '\0'\<close>.
\<close>

definition strip_trailing :: "byte list \<Rightarrow> byte list" where
  "strip_trailing pathname =
     (if pathname ! (strlen pathname - 1) = 0x2F
      then pathname[strlen pathname - 1 := 0] else pathname)"

lemma strlen_strip_trailing: "strlen pathname \<noteq> 0 \<Longrightarrow> strlen (strip_trailing pathname) \<le> strlen pathname"
  by (simp add: strip_trailing_def strlen_cut)

text \<open>
  For an empty string the source reads \<^verbatim>\<open>pathname[strlen(pathname) - 1]\<close>, the byte
  before the buffer: the behaviour is undefined and the model returns \<open>None\<close>.
  The constant 493 is the octal 0755.
\<close>

function create_dir :: "byte list \<Rightarrow> cint \<Rightarrow> world \<Rightarrow> (byte list \<times> world) option" where
  "create_dir pathname mode w =
     (if strlen pathname = 0 then None
      else
        (case mkdir (cstr (strip_trailing pathname)) mode w of
           (r, w1) \<Rightarrow>
             if r \<noteq> 0 then
               (case strrchr (strip_trailing pathname) 0x2F of
                  None \<Rightarrow>
                    Some (strip_trailing pathname, report_failure (strip_trailing pathname) w1)
                | Some p \<Rightarrow>
                    (case create_dir ((strip_trailing pathname)[p := 0]) 493 w1 of
                       None \<Rightarrow> None
                     | Some (pathname2, w2) \<Rightarrow>
                         (case mkdir (cstr (pathname2[p := 0x2F])) mode w2 of
                            (r', w3) \<Rightarrow>
                              Some (pathname2[p := 0x2F],
                                if r' \<noteq> 0 then report_failure (pathname2[p := 0x2F]) w3
                                else w3))))
             else Some (strip_trailing pathname, w1)))"
  by pat_completeness auto
termination
proof (relation "measure (\<lambda>(pathname, mode, w). strlen pathname)")
  show "wf (measure (\<lambda>(pathname, mode, w). strlen pathname))"
    by simp
next
  fix pathname :: "byte list" and mode :: cint and w :: world and x r w1 p
  assume nz: "strlen pathname \<noteq> 0"
    and sl: "strrchr (strip_trailing pathname) 0x2F = Some p"
  have "p < strlen (strip_trailing pathname)"
    using strrchr_Some[OF sl] by simp
  then show "(((strip_trailing pathname)[p := 0], 493, w1), pathname, mode, w)
      \<in> measure (\<lambda>(pathname, mode, w). strlen pathname)"
    using strlen_strip_trailing[OF nz] by (simp add: strlen_cut)
qed

declare create_dir.simps [simp del]

text \<open>\<^verbatim>\<open>create_file\<close>: the handle (or NULL), with the buffer and the world.\<close>

definition create_file ::
  "byte list \<Rightarrow> cint \<Rightarrow> world \<Rightarrow> (nat option \<times> byte list \<times> world) option" where
  "create_file pathname mode w =
     (case fopen_w (cstr pathname) w of
        (Some h, w1) \<Rightarrow> Some (Some h, pathname, w1)
      | (None, w1) \<Rightarrow>
          (case strrchr pathname 0x2F of
             None \<Rightarrow> Some (None, pathname, w1)
           | Some p \<Rightarrow>
               (case create_dir (pathname[p := 0]) 493 w1 of
                  None \<Rightarrow> None
                | Some (pathname2, w2) \<Rightarrow>
                    (case fopen_w (cstr (pathname2[p := 0x2F])) w2 of
                       (f, w3) \<Rightarrow> Some (f, pathname2[p := 0x2F], w3)))))"

section \<open>The extraction engine\<close>

datatype outcome = End_of_archive | Short_read | Checksum_failure | Undefined_behaviour

text \<open>
  The entry type dispatch of \<^verbatim>\<open>untar\<close> (the chain of tests on \<^verbatim>\<open>op\<close>): the result is the
  size that remains to be read, the output handle, the buffer and the world.
\<close>

definition dispatch ::
  "byte list \<Rightarrow> cint \<Rightarrow> nat option \<Rightarrow> world \<Rightarrow> (cint \<times> nat option \<times> byte list \<times> world) option" where
  "dispatch buff filesize f w =
     (let op = (scast (buff ! 156) :: cint)
      in if 49 = op then
           Some (filesize, f, buff, puts (Name (cstr buff)) (fputs (Text '' Ignoring hardlink '') Stdout w))
         else if 50 = op then
           Some (filesize, f, buff, puts (Name (cstr buff)) (fputs (Text '' Ignoring symlink '') Stdout w))
         else if 51 = op then
           Some (filesize, f, buff,
             puts (Name (cstr buff)) (fputs (Text '' Ignoring character device '') Stdout w))
         else if 52 = op then
           Some (filesize, f, buff,
             puts (Name (cstr buff)) (fputs (Text '' Ignoring block device '') Stdout w))
         else if 53 = op then
           (case create_dir buff (parseoct (drop 100 buff) 8)
                   (puts (Name (cstr buff)) (fputs (Text '' Extracting dir '') Stdout w)) of
              None \<Rightarrow> None
            | Some (buff', w') \<Rightarrow> Some (0, f, buff', w'))
         else if 54 = op then
           Some (filesize, f, buff, puts (Name (cstr buff)) (fputs (Text '' Ignoring FIFO '') Stdout w))
         else
           (case create_file buff (parseoct (drop 100 buff) 8)
                   (puts (Name (cstr buff)) (fputs (Text '' Extracting file '') Stdout w)) of
              None \<Rightarrow> None
            | Some (f', buff', w') \<Rightarrow> Some (filesize, f', buff', w')))"

text \<open>
  The body of the payload loop. \<open>Inl\<close> is the \<^verbatim>\<open>return\<close> after a short read; \<open>Inr\<close>
  carries the remaining size, the handle, the buffer and the world to the next test of
  \<^verbatim>\<open>filesize > 0\<close>. \<^verbatim>\<open>bytes_read\<close> is a \<^verbatim>\<open>size_t\<close>: \<^verbatim>\<open>filesize - bytes_read\<close> stored in the
  \<^verbatim>\<open>int\<close> is the difference modulo \<open>2 ^ 32\<close>. The body runs only when \<^verbatim>\<open>filesize > 0\<close>,
  so \<^verbatim>\<open>bytes_read = filesize\<close> converts a positive number.
\<close>

definition payload_step ::
  "path \<Rightarrow> cint \<Rightarrow> nat option \<Rightarrow> byte list \<Rightarrow> world \<Rightarrow>
     (nat option \<times> world) + (cint \<times> nat option \<times> byte list \<times> world)" where
  "payload_step path filesize f buff w =
     (case fread buff 512 w of
        (bytes_read, buff1, w1) \<Rightarrow>
          if bytes_read < 512 then
            Inl (f, puts (Num bytes_read)
                      (fputs (Text '': Expected 512, got '') Stderr
                         (fputs (Name path) Stderr (fputs (Text ''Short read on '') Stderr w1))))
          else
            let bytes_read' = (if filesize <s 512 then unat filesize else bytes_read)
            in (case f of
                  None \<Rightarrow> Inr (filesize - of_nat bytes_read', None, buff1, w1)
                | Some h \<Rightarrow>
                    (case fwrite h (take bytes_read' buff1) w1 of
                       (op, w2) \<Rightarrow>
                         if op \<noteq> bytes_read'
                         then Inr (filesize - of_nat bytes_read', None, buff1,
                                   fclose h (fputs (Text ''Failed write\<newline>'') Stderr w2))
                         else Inr (filesize - of_nat bytes_read', Some h, buff1, w2))))"

subsection \<open>What the calls of the environment leave unchanged\<close>

lemma log_fields [simp]:
  "stream (log e w) = stream w" "fs (log e w) = fs w" "handles (log e w) = handles w"
  "next_handle (log e w) = next_handle w" "wlimit (log e w) = wlimit w"
  "trace (log e w) = trace w @ [e]"
  by (simp_all add: log_def)

lemma fputs_fields [simp]:
  "stream (fputs m c w) = stream w" "fs (fputs m c w) = fs w"
  "handles (fputs m c w) = handles w" "next_handle (fputs m c w) = next_handle w"
  "wlimit (fputs m c w) = wlimit w" "trace (fputs m c w) = trace w @ [Ev_print c m]"
  by (simp_all add: fputs_def)

lemma puts_fields [simp]:
  "stream (puts m w) = stream w" "fs (puts m w) = fs w"
  "handles (puts m w) = handles w" "next_handle (puts m w) = next_handle w"
  "wlimit (puts m w) = wlimit w"
  "trace (puts m w) = trace w @ [Ev_print Stdout m, Ev_print Stdout newline]"
  by (simp_all add: puts_def)

lemma report_failure_fields [simp]:
  "stream (report_failure b w) = stream w" "fs (report_failure b w) = fs w"
  "handles (report_failure b w) = handles w" "next_handle (report_failure b w) = next_handle w"
  "wlimit (report_failure b w) = wlimit w"
  by (simp_all add: report_failure_def)

lemma mkdir_fields [simp]:
  "stream (snd (mkdir p m w)) = stream w" "handles (snd (mkdir p m w)) = handles w"
  "next_handle (snd (mkdir p m w)) = next_handle w" "wlimit (snd (mkdir p m w)) = wlimit w"
  by (simp_all add: mkdir_def)

lemma fopen_w_fields [simp]:
  "stream (snd (fopen_w p w)) = stream w" "wlimit (snd (fopen_w p w)) = wlimit w"
  by (simp_all add: fopen_w_def)

lemma fwrite_fields [simp]:
  "stream (snd (fwrite h d w)) = stream w" "handles (snd (fwrite h d w)) = handles w"
  "next_handle (snd (fwrite h d w)) = next_handle w"
  by (simp_all add: fwrite_def Let_def)

lemma fclose_fields [simp]:
  "stream (fclose h w) = stream w" "fs (fclose h w) = fs w"
  "next_handle (fclose h w) = next_handle w" "wlimit (fclose h w) = wlimit w"
  "trace (fclose h w) = trace w @ [Ev_fclose h]"
  by (simp_all add: fclose_def)

text \<open>
  A relation between worlds that every step of \<^verbatim>\<open>create_dir\<close> respects holds between
  the world it starts from and the world it returns.
\<close>

lemma create_dir_rel:
  assumes refl: "\<And>w. R w w"
    and trans: "\<And>a b c. R a b \<Longrightarrow> R b c \<Longrightarrow> R a c"
    and mk: "\<And>p m w. R w (snd (mkdir p m w))"
    and pr: "\<And>m c w. R w (fputs m c w)"
  shows "create_dir pathname mode w = Some (b', w') \<Longrightarrow> R w w'"
proof (induction pathname mode w arbitrary: b' w' rule: create_dir.induct)
  case (1 pathname mode w)
  obtain r w1 where m1: "mkdir (cstr (strip_trailing pathname)) mode w = (r, w1)"
    by force
  have rf: "R a (report_failure b a)" for a b
    unfolding report_failure_def by (meson pr trans)
  have r1: "R w w1"
    using mk[of w "cstr (strip_trailing pathname)" mode] m1 by simp
  from "1.prems" have nz: "strlen pathname \<noteq> 0"
    by (subst (asm) create_dir.simps) (simp split: if_splits)
  show ?case
  proof (cases "r = 0")
    case True
    with "1.prems" nz m1 have "w' = w1"
      by (subst (asm) create_dir.simps) auto
    with r1 show ?thesis by simp
  next
    case False
    show ?thesis
    proof (cases "strrchr (strip_trailing pathname) 0x2F")
      case None
      with "1.prems" nz m1 False have "w' = report_failure (strip_trailing pathname) w1"
        by (subst (asm) create_dir.simps) auto
      with r1 rf show ?thesis by (meson trans)
    next
      case (Some p)
      with "1.prems" nz m1 False obtain pathname2 w2 where
        rec: "create_dir ((strip_trailing pathname)[p := 0]) 493 w1 = Some (pathname2, w2)"
        and fin: "w' = (case mkdir (cstr (pathname2[p := 0x2F])) mode w2 of
                          (r', w3) \<Rightarrow> if r' \<noteq> 0 then report_failure (pathname2[p := 0x2F]) w3 else w3)"
        by (subst (asm) create_dir.simps)
           (auto split: option.splits prod.splits)
      have r2: "R w1 w2"
        using "1.IH"[OF nz m1[symmetric] False Some rec] .
      obtain r' w3 where m3: "mkdir (cstr (pathname2[p := 0x2F])) mode w2 = (r', w3)"
        by force
      have r3: "R w2 w3"
        using mk[of w2 "cstr (pathname2[p := 0x2F])" mode] m3 by simp
      have "R w3 w'"
        using fin m3 rf refl by (simp split: if_splits)
      with r1 r2 r3 show ?thesis by (meson trans)
    qed
  qed
qed

lemma create_dir_frame:
  assumes "create_dir pathname mode w = Some (b', w')"
  shows "stream w' = stream w \<and> handles w' = handles w \<and> next_handle w' = next_handle w \<and>
         wlimit w' = wlimit w"
  by (rule create_dir_rel[where R = "\<lambda>w w'. stream w' = stream w \<and> handles w' = handles w \<and>
         next_handle w' = next_handle w \<and> wlimit w' = wlimit w", OF _ _ _ _ assms]) simp_all

lemma create_file_frame:
  assumes "create_file pathname mode w = Some (f, b', w')"
  shows "stream w' = stream w \<and> wlimit w' = wlimit w"
proof -
  obtain f1 w1 where o1: "fopen_w (cstr pathname) w = (f1, w1)"
    by force
  have s1: "stream w1 = stream w \<and> wlimit w1 = wlimit w"
    using fopen_w_fields[of "cstr pathname" w] o1 by simp
  show ?thesis
  proof (cases f1)
    case (Some h)
    with assms o1 s1 show ?thesis by (auto simp: create_file_def)
  next
    case None
    show ?thesis
    proof (cases "strrchr pathname 0x2F")
      case n: None
      with assms o1 s1 None show ?thesis by (auto simp: create_file_def)
    next
      case (Some p)
      with assms o1 None obtain pathname2 w2 where
        rec: "create_dir (pathname[p := 0]) 493 w1 = Some (pathname2, w2)"
        and fin: "w' = snd (fopen_w (cstr (pathname2[p := 0x2F])) w2)"
        by (auto simp: create_file_def split: option.splits prod.splits)
      from create_dir_frame[OF rec] s1 fin show ?thesis by simp
    qed
  qed
qed

lemma fread_full:
  assumes "fread buff 512 w = (n, buff1, w1)" and "\<not> n < 512"
  shows "n = 512 \<and> 512 \<le> length (stream w) \<and> stream w1 = drop 512 (stream w) \<and>
         buff1 = take 512 (stream w) @ drop 512 buff \<and> fs w1 = fs w \<and> handles w1 = handles w \<and>
         next_handle w1 = next_handle w \<and> wlimit w1 = wlimit w \<and>
         trace w1 = trace w @ [Ev_fread 512]"
  using assms by (auto simp: fread_def Let_def min_def split: if_splits)

lemma sint_sub_512:
  fixes x :: cint
  assumes "\<not> x <s 512"
  shows "sint (x - 512) = sint x - 512"
proof -
  have "512 \<le> sint x" using assms by (simp add: word_sless_alt)
  moreover have "sint x < 2 ^ 31" using sint_lt[of x] by simp
  ultimately show ?thesis
    by (simp add: sint_word_diff signed_take_bit_int_eq_self)
qed

text \<open>One pass of the payload loop lowers the remaining size and never below zero.\<close>

lemma payload_step_decreases:
  assumes "0 <s filesize"
    and "payload_step path filesize f buff w = Inr (filesize', f', buff', w')"
  shows "0 \<le> sint filesize' \<and> sint filesize' < sint filesize \<and>
         stream w' = drop 512 (stream w) \<and> 512 \<le> length (stream w)"
proof -
  obtain n buff1 w1 where fr: "fread buff 512 w = (n, buff1, w1)"
    by (metis prod_cases3)
  from assms(2) fr have full: "\<not> n < 512"
    by (auto simp: payload_step_def split: if_splits)
  note ff = fread_full[OF fr full]
  have pos: "0 < sint filesize" using assms(1) by (simp add: word_sless_alt)
  have fs': "filesize' = (if filesize <s 512 then 0 else filesize - 512)"
    using assms(2) fr full ff
    by (auto simp: payload_step_def Let_def split: if_splits option.splits prod.splits)
  have st: "stream w' = stream w1"
    using assms(2) fr full
    by (auto simp: payload_step_def Let_def split: if_splits option.splits prod.splits
        dest: arg_cong[where f = "\<lambda>p. stream (snd p)"])
  show ?thesis
    using fs' pos st ff sint_sub_512[of filesize] by (auto simp: word_sless_alt)
qed

function payload_loop ::
  "path \<Rightarrow> cint \<Rightarrow> nat option \<Rightarrow> byte list \<Rightarrow> world \<Rightarrow> bool \<times> nat option \<times> world" where
  "payload_loop path filesize f buff w =
     (if 0 <s filesize then
        (case payload_step path filesize f buff w of
           Inl (f', w') \<Rightarrow> (True, f', w')
         | Inr (filesize', f', buff', w') \<Rightarrow> payload_loop path filesize' f' buff' w')
      else (False, f, w))"
  by pat_completeness auto
termination
proof (relation "measure (\<lambda>(path, filesize, f, buff, w). nat (sint filesize))")
  show "wf (measure (\<lambda>(path, filesize, f, buff, w). nat (sint filesize)))"
    by simp
next
  fix path :: path and filesize :: cint and f :: "nat option" and buff :: "byte list"
    and w :: world and x2 filesize' y f' z buff' w'
  assume pos: "0 <s filesize"
    and st: "payload_step path filesize f buff w = Inr x2"
    and x2: "(filesize', y) = x2" and y: "(f', z) = y" and z: "(buff', w') = z"
  have "payload_step path filesize f buff w = Inr (filesize', f', buff', w')"
    using st x2 y z by simp
  from payload_step_decreases[OF pos this]
  show "((path, filesize', f', buff', w'), path, filesize, f, buff, w)
          \<in> measure (\<lambda>(path, filesize, f, buff, w). nat (sint filesize))"
    by simp
qed

declare payload_loop.simps [simp del]

lemma payload_loop_stream:
  "payload_loop path filesize f buff w = (ab, f', w') \<Longrightarrow> length (stream w') \<le> length (stream w)"
proof (induction path filesize f buff w rule: payload_loop.induct)
  case (1 path filesize f buff w)
  show ?case
  proof (cases "0 <s filesize")
    case False
    with "1.prems" show ?thesis by (subst (asm) payload_loop.simps) simp
  next
    case True
    show ?thesis
    proof (cases "payload_step path filesize f buff w")
      case (Inl a)
      obtain n buff1 w1 where fr: "fread buff 512 w = (n, buff1, w1)"
        by (metis prod_cases3)
      have "stream w1 = drop 512 (stream w)" using fr by (auto simp: fread_def Let_def)
      with Inl fr True "1.prems" show ?thesis
        by (subst (asm) payload_loop.simps)
           (auto simp: payload_step_def Let_def split: if_splits option.splits prod.splits)
    next
      case (Inr b)
      obtain filesize' f1 buff' w1 where b: "b = (filesize', f1, buff', w1)"
        by (metis prod_cases4)
      from "1.prems" True Inr b have "payload_loop path filesize' f1 buff' w1 = (ab, f', w')"
        by (subst (asm) payload_loop.simps) simp
      from "1.IH"[OF True Inr[unfolded b] refl refl refl this]
        payload_step_decreases[OF True Inr[unfolded b]]
      show ?thesis by simp
    qed
  qed
qed

lemma dispatch_stream:
  assumes "dispatch buff filesize f w = Some (filesize', f', buff', w')"
  shows "stream w' = stream w"
proof -
  have d: "create_dir b m v = Some (b2, v2) \<Longrightarrow> stream v2 = stream v" for b m v b2 v2
    using create_dir_frame by blast
  have c: "create_file b m v = Some (g, b2, v2) \<Longrightarrow> stream v2 = stream v" for b m v g b2 v2
    using create_file_frame by blast
  show ?thesis
    using assms
    by (auto simp: dispatch_def Let_def split: if_splits option.splits dest!: d c)
qed

text \<open>
  One pass of the \<^verbatim>\<open>while(TRUE)\<close> loop of \<^verbatim>\<open>untar\<close>: \<open>Some\<close> outcome where the source
  returns, \<open>None\<close> where it goes on to the next header. The buffer is cleared by
  \<^verbatim>\<open>memset\<close> at the start of every pass.
\<close>

definition untar_entry :: "path \<Rightarrow> nat option \<Rightarrow> world \<Rightarrow> outcome option \<times> nat option \<times> world" where
  "untar_entry path f w =
     (case fread (replicate 514 0) 512 w of
        (bytes_read, buff, w1) \<Rightarrow>
          if bytes_read < 512 then
            (Some Short_read, f,
               fputs newline Stderr
                 (fputs (Num bytes_read) Stderr
                    (fputs (Text '': expected 512, got '') Stderr
                       (fputs (Name path) Stderr (fputs (Text ''Short read on '') Stderr w1)))))
          else if is_end_of_archive buff then
            (Some End_of_archive, f, puts (Name path) (fputs (Text ''End of '') Stdout w1))
          else if \<not> verify_checksum buff then
            (Some Checksum_failure, f, fputs (Text ''Checksum failure\<newline>'') Stderr w1)
          else
            (case dispatch buff (parseoct (drop 124 buff) 12) f w1 of
               None \<Rightarrow> (Some Undefined_behaviour, f, w1)
             | Some (filesize, f1, buff1, w2) \<Rightarrow>
                 (case payload_loop path filesize f1 buff1 w2 of
                    (True, f2, w3) \<Rightarrow> (Some Short_read, f2, w3)
                  | (False, f2, w3) \<Rightarrow>
                      (case f2 of
                         None \<Rightarrow> (None, None, w3)
                       | Some h \<Rightarrow> (None, None, fclose h w3)))))"

lemma untar_entry_consumes:
  assumes "untar_entry path f w = (None, f', w')"
  shows "length (stream w') < length (stream w)"
proof -
  obtain n buff w1 where fr: "fread (replicate 514 0) 512 w = (n, buff, w1)"
    by (metis prod_cases3)
  from assms fr have full: "\<not> n < 512"
    by (auto simp: untar_entry_def split: if_splits)
  note ff = fread_full[OF fr full]
  from assms fr full obtain filesize f1 buff1 w2 ab f2 w3 where
    d: "dispatch buff (parseoct (drop 124 buff) 12) f w1 = Some (filesize, f1, buff1, w2)"
    and p: "payload_loop path filesize f1 buff1 w2 = (ab, f2, w3)"
    and fin: "stream w' = stream w3"
    by (auto simp: untar_entry_def split: if_splits option.splits prod.splits bool.splits)
  from dispatch_stream[OF d] payload_loop_stream[OF p] fin ff
  show ?thesis by auto
qed

function untar_loop :: "path \<Rightarrow> nat option \<Rightarrow> world \<Rightarrow> outcome \<times> nat option \<times> world" where
  "untar_loop path f w =
     (case untar_entry path f w of
        (Some result, f', w') \<Rightarrow> (result, f', w')
      | (None, f', w') \<Rightarrow> untar_loop path f' w')"
  by pat_completeness auto
termination
proof (relation "measure (\<lambda>(path, f, w). length (stream w))")
  show "wf (measure (\<lambda>(path, f, w). length (stream w)))"
    by simp
next
  fix path :: path and f :: "nat option" and w :: world and x1 x2 f' w'
  assume "(x1, x2) = untar_entry path f w" and "x1 = None" and "(f', w') = x2"
  then have "untar_entry path f w = (None, f', w')"
    by simp
  from untar_entry_consumes[OF this]
  show "((path, f', w'), path, f, w) \<in> measure (\<lambda>(path, f, w). length (stream w))"
    by simp
qed

declare untar_loop.simps [simp del]

text \<open>
  \<^verbatim>\<open>untar(a, path)\<close>: the stream \<open>a\<close> is the \<open>stream\<close> of the world. The handle variable
  \<open>f\<close> is local, so what it holds at the return is lost.
\<close>

definition untar :: "path \<Rightarrow> world \<Rightarrow> outcome \<times> world" where
  "untar path w =
     (case untar_loop path None (puts (Name path) (fputs (Text ''Extracting from '') Stdout w)) of
        (result, f, w') \<Rightarrow> (result, w'))"

section \<open>A world to start from\<close>

text \<open>An empty working directory, no open handle, no write limit, and the archive \<open>s\<close>.\<close>

definition initial_world :: "byte list \<Rightarrow> world" where
  "initial_world s =
     \<lparr>stream = s, fs = Map.empty, handles = [], next_handle = 0, wlimit = [], trace = []\<rparr>"

section \<open>Measures used in the statements\<close>

text \<open>The number of 512-byte blocks that hold \<open>n\<close> bytes: \<open>n / 512\<close> rounded up.\<close>

definition blocks :: "nat \<Rightarrow> nat" where
  "blocks n = (n + 511) div 512"

text \<open>The number of \<^verbatim>\<open>fread\<close> calls in a trace.\<close>

fun is_fread :: "event \<Rightarrow> bool" where
  "is_fread (Ev_fread n) = True"
| "is_fread e = False"

definition freads :: "event list \<Rightarrow> nat" where
  "freads t = length (filter is_fread t)"

text \<open>
  The string of the name field of a header: the first 100 bytes up to the first NUL.
\<close>

definition name_field :: "byte list \<Rightarrow> path" where
  "name_field hdr = cstr (take 100 hdr)"

text \<open>A path without its trailing separator, when it has one.\<close>

definition strip_slash :: "path \<Rightarrow> path" where
  "strip_slash s = (if s \<noteq> [] \<and> last s = 0x2F then butlast s else s)"

text \<open>The path of the first \<^verbatim>\<open>mkdir\<close> or \<^verbatim>\<open>fopen\<close> call in a trace.\<close>

fun first_creation :: "event list \<Rightarrow> path option" where
  "first_creation [] = None"
| "first_creation (Ev_mkdir p m r # t) = Some p"
| "first_creation (Ev_fopen p h # t) = Some p"
| "first_creation (e # t) = first_creation t"

text \<open>The paths of all \<^verbatim>\<open>mkdir\<close> calls of a trace, in order, and those of all \<^verbatim>\<open>fopen\<close> calls.\<close>

fun mkdir_paths :: "event list \<Rightarrow> path list" where
  "mkdir_paths [] = []"
| "mkdir_paths (Ev_mkdir p m r # t) = p # mkdir_paths t"
| "mkdir_paths (e # t) = mkdir_paths t"

fun fopen_paths :: "event list \<Rightarrow> path list" where
  "fopen_paths [] = []"
| "fopen_paths (Ev_fopen p h # t) = p # fopen_paths t"
| "fopen_paths (e # t) = fopen_paths t"

text \<open>A path with two adjacent separators somewhere in it.\<close>

fun has_double_slash :: "path \<Rightarrow> bool" where
  "has_double_slash (a # b # s) = ((a = 0x2F \<and> b = 0x2F) \<or> has_double_slash (b # s))"
| "has_double_slash s = False"

text \<open>
  \<open>q\<close> is a leading directory of the path \<open>t\<close>: a proper leading part of \<open>t\<close> that ends
  just before a separator of \<open>t\<close>.
\<close>

definition ancestor_of :: "path \<Rightarrow> path \<Rightarrow> bool" where
  "ancestor_of t q = (length q < length t \<and> q = take (length q) t \<and> t ! length q = 0x2F)"




text \<open>The regular files of a file system, with their contents.\<close>

definition files_of :: "(path \<rightharpoonup> node) \<Rightarrow> (path \<rightharpoonup> byte list)" where
  "files_of m = (\<lambda>p. case m p of Some (File c) \<Rightarrow> Some c | _ \<Rightarrow> None)"

text \<open>
  The world in which an entry is dispatched: its header block has been read and the line
  that names the action and the entry has been printed.
\<close>

definition entry_world :: "string \<Rightarrow> byte list \<Rightarrow> world \<Rightarrow> world" where
  "entry_world action hdr w =
     puts (Name (cstr hdr)) (fputs (Text action) Stdout
       (log (Ev_fread 512) (w\<lparr>stream := drop 512 (stream w)\<rparr>)))"

section \<open>Example archives\<close>

text \<open>The bytes of an ASCII string.\<close>

definition bytes :: "string \<Rightarrow> byte list" where
  "bytes s = map of_char s"

text \<open>
  A header block from its fields: the name, then the mode (8 bytes), the owner and group
  fields (zero here), the size (12 bytes), the time (zero here), the checksum (8 bytes)
  and the type flag; the rest of the block is zero.
\<close>

definition ustar_header ::
  "byte list \<Rightarrow> byte list \<Rightarrow> byte list \<Rightarrow> byte list \<Rightarrow> byte \<Rightarrow> byte list" where
  "ustar_header name mode sz chksum typeflag =
     name @ replicate (100 - length name) 0 @ mode @ replicate 16 0 @ sz @ replicate 12 0 @
     chksum @ typeflag # replicate 355 0"

text \<open>
  The regular file \<open>a.txt\<close> of five bytes, mode 644; the bytes of the header add up to
  1682, octal 3222. Then the archive of that one file with the payload \<open>hello\<close>.
\<close>

definition hello_header :: "byte list" where
  "hello_header =
     ustar_header (bytes ''a.txt'') (bytes ''0000644'' @ [0]) (bytes ''00000000005'' @ [0])
       (bytes ''003222'' @ [0, 0x20]) 0x30"

definition hello_archive :: "byte list" where
  "hello_archive = hello_header @ bytes ''hello'' @ replicate 507 0 @ replicate 512 0"

text \<open>
  The directory \<open>sub/\<close>, mode 755, with the stray size 1000 in its size field (the bytes add
  up to 1580, octal 3054); the file \<open>a.txt\<close> with no bytes (1677, octal 3215); and the file
  \<open>a.txt\<close> with the declared size \<open>2 ^ 31\<close>, octal 20000000000 (1679, octal 3217).
\<close>

definition sub_header :: "byte list" where
  "sub_header =
     ustar_header (bytes ''sub/'') (bytes ''0000755'' @ [0]) (bytes ''00000001750'' @ [0])
       (bytes ''003054'' @ [0, 0x20]) 0x35"

definition empty_header :: "byte list" where
  "empty_header =
     ustar_header (bytes ''a.txt'') (bytes ''0000644'' @ [0]) (bytes ''00000000000'' @ [0])
       (bytes ''003215'' @ [0, 0x20]) 0x30"

definition big_header :: "byte list" where
  "big_header =
     ustar_header (bytes ''a.txt'') (bytes ''0000644'' @ [0]) (bytes ''20000000000'' @ [0])
       (bytes ''003217'' @ [0, 0x20]) 0x30"

text \<open>
  A block with one byte above 127: \<open>0x80\<close> at offset 0, zeros elsewhere, and the checksum
  field \<open>00000600\<close>.
\<close>

definition high_byte_block :: "byte list" where
  "high_byte_block =
     0x80 # replicate 147 0 @ [0x30, 0x30, 0x30, 0x30, 0x30, 0x36, 0x30, 0x30] @ replicate 356 0"

text \<open>
  Entries for the paths of the materializer, each header with a valid checksum. A name that
  fills the 100 bytes of its field: the file \<open>x\<dots>x\<close> (100 letters, mode 644), the
  directory \<open>x\<dots>x/\<close> (99 letters and the separator, mode 700) and the directory
  \<open>x\<dots>x\<close> (100 letters, mode 700); a directory with an empty name; the directory \<open>/x\<close>; the directory \<open>a//b\<close> and the file \<open>a//c.txt\<close>; the file
  \<open>d/f.txt\<close>; and the directory \<open>a/b/\<close>, mode 700, with the stray size 1000.
\<close>

definition long_file_header :: "byte list" where
  "long_file_header =
     ustar_header (replicate 100 0x78) (bytes ''0000644'' @ [0]) (bytes ''00000000000'' @ [0])
       (bytes ''031576'' @ [0, 0x20]) 0x30"

definition long_dir_header :: "byte list" where
  "long_dir_header =
     ustar_header (replicate 99 0x78 @ [0x2F]) (bytes ''0000700'' @ [0])
       (bytes ''00000000000'' @ [0]) (bytes ''031463'' @ [0, 0x20]) 0x35"

definition full_dir_header :: "byte list" where
  "full_dir_header =
     ustar_header (replicate 100 0x78) (bytes ''0000700'' @ [0]) (bytes ''00000000000'' @ [0])
       (bytes ''031574'' @ [0, 0x20]) 0x35"

definition unnamed_dir_header :: "byte list" where
  "unnamed_dir_header =
     ustar_header [] (bytes ''0000755'' @ [0]) (bytes ''00000000000'' @ [0])
       (bytes ''002246'' @ [0, 0x20]) 0x35"

definition absolute_dir_header :: "byte list" where
  "absolute_dir_header =
     ustar_header (bytes ''/x'') (bytes ''0000755'' @ [0]) (bytes ''00000000000'' @ [0])
       (bytes ''002515'' @ [0, 0x20]) 0x35"

definition double_dir_header :: "byte list" where
  "double_dir_header =
     ustar_header (bytes ''a//b'') (bytes ''0000755'' @ [0]) (bytes ''00000000000'' @ [0])
       (bytes ''002707'' @ [0, 0x20]) 0x35"

definition double_file_header :: "byte list" where
  "double_file_header =
     ustar_header (bytes ''a//c.txt'') (bytes ''0000644'' @ [0]) (bytes ''00000000000'' @ [0])
       (bytes ''003516'' @ [0, 0x20]) 0x30"

definition nested_file_header :: "byte list" where
  "nested_file_header =
     ustar_header (bytes ''d/f.txt'') (bytes ''0000644'' @ [0]) (bytes ''00000000000'' @ [0])
       (bytes ''003445'' @ [0, 0x20]) 0x30"

definition nested_dir_header :: "byte list" where
  "nested_dir_header =
     ustar_header (bytes ''a/b/'') (bytes ''0000700'' @ [0]) (bytes ''00000001750'' @ [0])
       (bytes ''002712'' @ [0, 0x20]) 0x35"

text \<open>
  One pass of \<^verbatim>\<open>untar\<close> over the archive made of the header \<open>hdr\<close> and a zero block, in a
  working directory that holds \<open>m\<close>.
\<close>

definition one_entry :: "(path \<rightharpoonup> node) \<Rightarrow> byte list \<Rightarrow> outcome option \<times> nat option \<times> world" where
  "one_entry m hdr = untar_entry [] None ((initial_world (hdr @ replicate 512 0))\<lparr>fs := m\<rparr>)"

section \<open>Properties of the model\<close>

lemma sint_byte: "sint (b::byte) = (if unat b < 128 then int (unat b) else int (unat b) - 256)"
proof -
  define n where "n = unat b"
  have n: "n < 256" using unsigned_less[of b, where ?'a=nat] by (simp add: n_def)
  have u: "uint b = int n" by (simp add: n_def)
  have "signed_take_bit 7 (int n) = (if n < 128 then int n else int n - 256)"
  proof (cases "n < 128")
    case True
    then have "(int n + 128) mod 256 = int n + 128"
      by (intro mod_pos_pos_trivial) simp_all
    with True show ?thesis
      by (simp add: signed_take_bit_eq_take_bit_shift take_bit_eq_mod)
  next
    case False
    have e: "int n + 128 = (int n - 128) + 256"
      by (simp add: algebra_simps)
    have "(int n + 128) mod 256 = (int n - 128) mod 256"
      unfolding e by (rule mod_add_self2)
    also have "\<dots> = int n - 128"
      using False n by (intro mod_pos_pos_trivial) simp_all
    finally show ?thesis using False
      by (simp add: signed_take_bit_eq_take_bit_shift take_bit_eq_mod)
  qed
  then show ?thesis
    unfolding sint_uint u n_def[symmetric] by simp
qed

lemma sint_of_nat32: "k < 2 ^ 31 \<Longrightarrow> sint (of_nat k :: cint) = int k"
  by (simp add: signed_of_nat signed_take_bit_int_eq_self)

lemma digit_sint: "is_octal_digit c \<Longrightarrow> 48 \<le> sint c \<and> sint c \<le> 55"
  unfolding is_octal_digit_def sint_byte by (simp del: of_nat_unat)

lemma digit_scast: "is_octal_digit c \<Longrightarrow> (scast c :: cint) = of_nat (unat c)"
proof -
  assume "is_octal_digit c"
  then have "sint c = int (unat c)"
    unfolding is_octal_digit_def sint_byte by (simp del: of_nat_unat)
  then show ?thesis
    by (metis of_int_of_nat_eq of_int_sint)
qed

lemma accum_digits_zero [simp]: "accum_digits p 0 i = i"
  by (cases p) simp_all

lemma accum_digits_octal:
  "list_all is_octal_digit (take n p) \<Longrightarrow> n \<le> length p \<Longrightarrow>
   accum_digits p n (of_nat k) = of_nat (octal_value_from k (take n p))"
proof (induction p arbitrary: n k)
  case Nil
  then show ?case by simp
next
  case (Cons c p)
  show ?case
  proof (cases n)
    case 0
    then show ?thesis by simp
  next
    case (Suc m)
    with Cons.prems have d: "is_octal_digit c"
      and rest: "list_all is_octal_digit (take m p)" "m \<le> length p"
      by simp_all
    have step: "push_bit 3 (of_nat k) + scast c - (48::cint) = of_nat (8 * k + (unat c - 48))"
      using d by (simp add: digit_scast push_bit_eq_mult is_octal_digit_def of_nat_diff)
    show ?thesis
      using digit_sint[OF d] Suc Cons.IH[OF rest, of "8 * k + (unat c - 48)"] step by simp
  qed
qed

lemma skip_nondigits_digit:
  "list_all is_octal_digit (take n p) \<Longrightarrow> skip_nondigits p n = (p, n)"
proof (cases p)
  case Nil
  then show ?thesis by simp
next
  case (Cons c q)
  assume a: "list_all is_octal_digit (take n p)"
  show ?thesis
  proof (cases n)
    case 0
    then show ?thesis using Cons by simp
  next
    case (Suc m)
    then have "is_octal_digit c" using a Cons by simp
    then show ?thesis using digit_sint[of c] Cons by simp
  qed
qed

lemma skip_blank:
  "list_all (\<lambda>c. c = 0x20 \<or> c = 0) (take n p) \<Longrightarrow>
   skip_nondigits p n = (drop n p, n - length p)"
  by (induction p arbitrary: n) (auto simp: take_Cons' drop_Cons' split: if_splits nat.splits)

lemma accum_digits_Nil [simp]: "accum_digits [] n i = i"
  by simp

lemma zero_scan_all: "n \<le> length p \<Longrightarrow> zero_scan p n = list_all (\<lambda>b. b = 0) (take n p)"
  by (induction n) (auto simp: take_Suc_conv_app_nth)

lemma is_end_of_archive_all:
  "512 \<le> length p \<Longrightarrow> is_end_of_archive p = list_all (\<lambda>b. b = 0) (take 512 p)"
  by (simp add: is_end_of_archive_def zero_scan_all)

lemma cksum_loop_sum:
  "n \<le> 512 \<Longrightarrow>
   cksum_loop p n u =
     u + sum_list (map (\<lambda>i. if i < 148 \<or> i > 155 then scast (p ! i) else 0x20) [n..<512])"
proof (induction p n u rule: cksum_loop.induct)
  case (1 p n u)
  show ?case
  proof (cases "n < 512")
    case True
    then have "[n..<512] = n # [n + 1..<512]"
      by (simp add: upt_conv_Cons)
    with True "1.IH"[OF True] show ?thesis
      by (subst cksum_loop.simps) (simp add: add.assoc)
  next
    case False
    with "1.prems" show ?thesis
      by (subst cksum_loop.simps) simp
  qed
qed

lemma map_nth_range:
  "b \<le> length p \<Longrightarrow> a \<le> b \<Longrightarrow> map (\<lambda>i. f (p ! i)) [a..<b] = map f (take (b - a) (drop a p))"
  by (rule nth_equalityI) simp_all

lemma map_range_cong:
  "(\<And>i. a \<le> i \<Longrightarrow> i < b \<Longrightarrow> f i = g i) \<Longrightarrow> map f [a..<b] = map g [a..<b]"
  by (rule map_cong) auto

lemma cksum_loop_fields:
  assumes "512 \<le> length p"
  shows "cksum_loop p 0 0 =
     sum_list (map scast (take 148 p)) + 256 + sum_list (map scast (take 356 (drop 156 p)))"
proof -
  let ?t = "\<lambda>i. if i < 148 \<or> i > 155 then (scast (p ! i) :: cint) else 0x20"
  have split: "[0..<512] = [0..<148] @ [148..<156] @ [156..<512]"
    using upt_add_eq_append[of 0 148 364] upt_add_eq_append[of 148 156 356]
    by (simp del: upt_rec_numeral)
  have a: "map ?t [0..<148] = map scast (take 148 p)"
  proof -
    have "map ?t [0..<148] = map (\<lambda>i. scast (p ! i)) [0..<148]"
      by (rule map_range_cong) simp
    also have "\<dots> = map scast (take 148 p)"
      using assms map_nth_range[of 148 p 0 scast] by (simp del: upt_rec_numeral)
    finally show ?thesis .
  qed
  have b: "sum_list (map ?t [148..<156]) = 256"
  proof -
    have "map ?t [148..<156] = map (\<lambda>i. 0x20) [148..<156]"
      by (rule map_range_cong) simp
    then have "sum_list (map ?t [148..<156]) = sum_list (map (\<lambda>i. 0x20) [148..<156])"
      by (simp only:)
    also have "\<dots> = 256"
      by (simp add: sum_list_triv del: upt_rec_numeral)
    finally show ?thesis .
  qed
  have c: "map ?t [156..<512] = map scast (take 356 (drop 156 p))"
  proof -
    have "map ?t [156..<512] = map (\<lambda>i. scast (p ! i)) [156..<512]"
      by (rule map_range_cong) simp
    also have "\<dots> = map scast (take 356 (drop 156 p))"
      using assms map_nth_range[of 512 p 156 scast] by (simp del: upt_rec_numeral)
    finally show ?thesis .
  qed
  have e: "cksum_loop p 0 0 = sum_list (map ?t [0..<512])"
    using cksum_loop_sum[of 0 p 0] by (simp del: upt_rec_numeral)
  show ?thesis
    unfolding e split map_append sum_list_append a b c
    by simp
qed

lemma fread_512:
  "512 \<le> length (stream w) \<Longrightarrow>
   fread buff 512 w =
     (512, take 512 (stream w) @ drop 512 buff,
      log (Ev_fread 512) (w\<lparr>stream := drop 512 (stream w)\<rparr>))"
  by (simp add: fread_def Let_def)

lemma fread_short:
  "length (stream w) < 512 \<Longrightarrow>
   fread buff 512 w =
     (length (stream w), stream w @ drop (length (stream w)) buff,
      log (Ev_fread (length (stream w))) (w\<lparr>stream := []\<rparr>))"
  by (simp add: fread_def Let_def)

lemma blocks_step:
  assumes "0 < s"
  shows "blocks s = Suc (blocks (s - min s 512))"
proof (cases "s \<le> 512")
  case True
  have "s + 511 = (s - 1) + 512" using assms by simp
  then have "(s + 511) div 512 = (s - 1) div 512 + 1"
    by (metis div_add_self2 zero_neq_numeral)
  moreover have "(s - 1) div 512 = 0"
    using True assms by simp
  ultimately show ?thesis using True by (simp add: blocks_def min_def)
next
  case False
  then have "s + 511 = (s - 512 + 511) + 512" by simp
  then have "(s + 511) div 512 = (s - 512 + 511) div 512 + 1"
    by (metis div_add_self2 zero_neq_numeral)
  with False show ?thesis by (simp add: blocks_def min_def)
qed


lemma payload_step_full:
  assumes "512 \<le> length (stream w)"
  shows "payload_step path filesize f buff w =
     (let bytes_read' = (if filesize <s 512 then unat filesize else 512);
          buff1 = take 512 (stream w) @ drop 512 buff;
          w1 = log (Ev_fread 512) (w\<lparr>stream := drop 512 (stream w)\<rparr>)
      in case f of
           None \<Rightarrow> Inr (filesize - of_nat bytes_read', None, buff1, w1)
         | Some h \<Rightarrow>
             (case fwrite h (take bytes_read' buff1) w1 of
                (op, w2) \<Rightarrow>
                  if op \<noteq> bytes_read'
                  then Inr (filesize - of_nat bytes_read', None, buff1,
                            fclose h (fputs (Text ''Failed write\<newline>'') Stderr w2))
                  else Inr (filesize - of_nat bytes_read', Some h, buff1, w2)))"
  by (simp add: payload_step_def fread_512[OF assms] Let_def)

lemma unat_nonneg_sint:
  fixes x :: cint
  assumes "0 \<le> sint x"
  shows "unat x = nat (sint x)"
proof -
  have "sint x < 2 ^ 32" using sint_lt[of x] by simp
  then have "take_bit 32 (sint x) = sint x"
    using assms by (simp add: take_bit_int_eq_self)
  then have "uint x = sint x"
    using uint_sint[of x] by simp
  then show ?thesis by (simp add: unat_eq_nat_uint)
qed

lemma sint_step:
  fixes filesize :: cint
  assumes "0 <s filesize"
  shows "sint (filesize - of_nat (if filesize <s 512 then unat filesize else 512)) =
         sint filesize - int (min (nat (sint filesize)) 512)"
proof (cases "filesize <s 512")
  case True
  then show ?thesis using assms by (simp add: word_sless_alt min_def)
next
  case False
  then show ?thesis using sint_sub_512[OF False] by (auto simp: word_sless_alt min_def)
qed


text \<open>With no output handle the payload loop only reads: one block per pass.\<close>

lemma payload_loop_drain:
  "512 * blocks (nat (sint filesize)) \<le> length (stream w) \<Longrightarrow>
   payload_loop path filesize None buff w =
     (False, None,
      w\<lparr>stream := drop (512 * blocks (nat (sint filesize))) (stream w),
        trace := trace w @ replicate (blocks (nat (sint filesize))) (Ev_fread 512)\<rparr>)"
proof (induction path filesize "None :: nat option" buff w rule: payload_loop.induct)
  case (1 path filesize buff w)
  show ?case
  proof (cases "0 <s filesize")
    case False
    then have "nat (sint filesize) = 0" by (simp add: word_sless_alt)
    with False show ?thesis
      by (subst payload_loop.simps) (simp add: blocks_def)
  next
    case True
    define s where "s = nat (sint filesize)"
    define filesize' where
      "filesize' = filesize - of_nat (if filesize <s 512 then unat filesize else 512)"
    define buff1 where "buff1 = take 512 (stream w) @ drop 512 buff"
    define w1 where "w1 = log (Ev_fread 512) (w\<lparr>stream := drop 512 (stream w)\<rparr>)"
    have spos: "0 < s" using True by (simp add: s_def word_sless_alt)
    have bl: "blocks s = Suc (blocks (s - min s 512))" by (rule blocks_step[OF spos])
    have len: "512 \<le> length (stream w)"
      using "1.prems" bl by (simp add: s_def[symmetric])
    have s': "nat (sint filesize') = s - min s 512"
      unfolding filesize'_def sint_step[OF True] s_def by simp
    have step: "payload_step path filesize None buff w = Inr (filesize', None, buff1, w1)"
      by (simp add: payload_step_full[OF len] filesize'_def buff1_def w1_def)
    have len1: "512 * blocks (nat (sint filesize')) \<le> length (stream w1)"
      using "1.prems" bl by (simp add: s' s_def[symmetric] w1_def)
    have "payload_loop path filesize None buff w = payload_loop path filesize' None buff1 w1"
      using True step by (subst payload_loop.simps) simp
    also have "\<dots> = (False, None,
        w1\<lparr>stream := drop (512 * blocks (nat (sint filesize'))) (stream w1),
           trace := trace w1 @ replicate (blocks (nat (sint filesize'))) (Ev_fread 512)\<rparr>)"
      by (rule "1.hyps"[OF True step refl refl refl len1])
    also have "\<dots> = (False, None,
        w\<lparr>stream := drop (512 * blocks s) (stream w),
          trace := trace w @ replicate (blocks s) (Ev_fread 512)\<rparr>)"
      by (simp add: s' bl w1_def log_def add.commute)
    finally show ?thesis by (simp add: s_def)
  qed
qed


lemma fwrite_trace [simp]:
  "trace (snd (fwrite h d w)) = trace w @ [Ev_fwrite h d (fst (fwrite h d w))]"
  by (simp add: fwrite_def Let_def)

lemma payload_step_Inr:
  assumes "512 \<le> length (stream w)"
  shows "\<exists>f1 w1. payload_step path filesize f buff w =
           Inr (filesize - of_nat (if filesize <s 512 then unat filesize else 512), f1,
                take 512 (stream w) @ drop 512 buff, w1) \<and>
         stream w1 = drop 512 (stream w) \<and> freads (trace w1) = Suc (freads (trace w))"
proof (cases f)
  case None
  then show ?thesis
    by (simp add: payload_step_full[OF assms] freads_def)
next
  case (Some h)
  define n where "n = (if filesize <s 512 then unat filesize else 512)"
  define buff1 where "buff1 = take 512 (stream w) @ drop 512 buff"
  define w1 where "w1 = log (Ev_fread 512) (w\<lparr>stream := drop 512 (stream w)\<rparr>)"
  obtain op w2 where fw: "fwrite h (take n buff1) w1 = (op, w2)"
    by force
  have "stream w2 = stream w1"
    using fwrite_fields(1)[of h "take n buff1" w1] fw by simp
  then have a: "stream w2 = drop 512 (stream w)"
    by (simp add: w1_def)
  have "trace w2 = trace w1 @ [Ev_fwrite h (take n buff1) op]"
    using fwrite_trace[of h "take n buff1" w1] fw by simp
  then have b: "freads (trace w2) = Suc (freads (trace w))"
    by (simp add: freads_def w1_def)
  have eq: "payload_step path filesize f buff w =
      (if op \<noteq> n
       then Inr (filesize - of_nat n, None, buff1,
                 fclose h (fputs (Text ''Failed write\<newline>'') Stderr w2))
       else Inr (filesize - of_nat n, Some h, buff1, w2))"
    by (simp only: payload_step_full[OF assms] Let_def Some option.case
        n_def[symmetric] buff1_def[symmetric] w1_def[symmetric] fw prod.case)
  show ?thesis
    unfolding eq n_def[symmetric] buff1_def[symmetric]
    using a b by (cases "op = n") (simp_all add: freads_def)
qed

lemma payload_loop_consumes:
  "512 * blocks (nat (sint filesize)) \<le> length (stream w) \<Longrightarrow>
   \<exists>f' w'. payload_loop path filesize f buff w = (False, f', w') \<and>
     stream w' = drop (512 * blocks (nat (sint filesize))) (stream w) \<and>
     freads (trace w') = freads (trace w) + blocks (nat (sint filesize))"
proof (induction path filesize f buff w rule: payload_loop.induct)
  case (1 path filesize f buff w)
  show ?case
  proof (cases "0 <s filesize")
    case False
    then have "nat (sint filesize) = 0" by (simp add: word_sless_alt)
    with False show ?thesis
      by (subst payload_loop.simps) (simp add: blocks_def)
  next
    case True
    define s where "s = nat (sint filesize)"
    define filesize' where
      "filesize' = filesize - of_nat (if filesize <s 512 then unat filesize else 512)"
    have spos: "0 < s" using True by (simp add: s_def word_sless_alt)
    have bl: "blocks s = Suc (blocks (s - min s 512))" by (rule blocks_step[OF spos])
    have len: "512 \<le> length (stream w)"
      using "1.prems" bl by (simp add: s_def[symmetric])
    have s': "nat (sint filesize') = s - min s 512"
      unfolding filesize'_def sint_step[OF True] s_def by simp
    from payload_step_Inr[OF len, of path filesize f buff] obtain f1 w1 where
      step: "payload_step path filesize f buff w =
               Inr (filesize', f1, take 512 (stream w) @ drop 512 buff, w1)"
      and st: "stream w1 = drop 512 (stream w)"
      and fr: "freads (trace w1) = Suc (freads (trace w))"
      unfolding filesize'_def by blast
    have len1: "512 * blocks (nat (sint filesize')) \<le> length (stream w1)"
      using "1.prems" bl by (simp add: s' s_def[symmetric] st)
    from "1.IH"[OF True step refl refl refl len1] obtain f' w' where
      r: "payload_loop path filesize' f1 (take 512 (stream w) @ drop 512 buff) w1 = (False, f', w')"
      and st': "stream w' = drop (512 * blocks (nat (sint filesize'))) (stream w1)"
      and fr': "freads (trace w') = freads (trace w1) + blocks (nat (sint filesize'))"
      by blast
    have "payload_loop path filesize f buff w = (False, f', w')"
      using True step r by (subst payload_loop.simps) simp
    moreover have "stream w' = drop (512 * blocks s) (stream w)"
      using st' by (simp add: s' bl st add.commute)
    moreover have "freads (trace w') = freads (trace w) + blocks s"
      using fr' fr by (simp add: s' bl)
    ultimately show ?thesis by (simp add: s_def)
  qed
qed

lemma blocks_ceiling: "n \<le> 512 * blocks n \<and> 512 * blocks n < n + 512"
proof -
  have "(n + 511) mod 512 < 512" by simp
  moreover have "n + 511 = 512 * ((n + 511) div 512) + (n + 511) mod 512"
    by simp
  ultimately show ?thesis
    unfolding blocks_def by linarith
qed

lemma accum_digits_prefix:
  "n \<le> length p \<Longrightarrow> accum_digits (p @ q) n i = accum_digits p n i"
proof (induction p arbitrary: n i)
  case Nil
  then show ?case by simp
next
  case (Cons c p)
  then show ?case by (cases n) simp_all
qed

lemma skip_nondigits_zero [simp]: "skip_nondigits p 0 = (p, 0)"
  by (cases p) simp_all

lemma parseoct_prefix:
  "n \<le> length p \<Longrightarrow> parseoct (p @ q) n = parseoct p n"
proof (induction p arbitrary: n)
  case Nil
  then show ?case by (simp add: parseoct_def)
next
  case (Cons c p)
  show ?case
  proof (cases "(sint c < 48 \<or> sint c > 55) \<and> n > 0")
    case True
    then have "n - 1 \<le> length p" using Cons.prems by simp
    from Cons.IH[OF this] True show ?thesis
      by (simp add: parseoct_def)
  next
    case False
    then show ?thesis
      using accum_digits_prefix[OF Cons.prems, of q 0] by (auto simp add: parseoct_def)
  qed
qed

lemma verify_checksum_prefix:
  assumes "length hdr = 512"
  shows "verify_checksum (hdr @ q) = verify_checksum hdr"
proof -
  have "parseoct (drop 148 (hdr @ q)) 8 = parseoct (drop 148 hdr) 8"
    using assms parseoct_prefix[of 8 "drop 148 hdr" q] by simp
  then show ?thesis
    using assms by (simp add: verify_checksum_def cksum_loop_fields)
qed

lemma is_end_of_archive_prefix:
  "length hdr = 512 \<Longrightarrow> is_end_of_archive (hdr @ q) = is_end_of_archive hdr"
  by (simp add: is_end_of_archive_all)

lemma cstr_terminated [simp]: "cstr (s @ 0 # q) = cstr s"
  by (induction s) (simp_all add: cstr_def)

lemma takeWhile_replicate_append:
  "takeWhile P (replicate n x @ ys) = (if P x \<or> n = 0 then replicate n x @ takeWhile P ys else [])"
  by (induction n) auto

lemma hello_length: "length hello_header = 512"
  by (simp add: hello_header_def ustar_header_def bytes_def)

lemma hello_cksum: "verify_checksum hello_header"
  using hello_length
  by (simp add: verify_checksum_def cksum_loop_fields)
     (simp add: hello_header_def ustar_header_def bytes_def parseoct_def sum_list_replicate)

lemma hello_name: "cstr hello_header = bytes ''a.txt''"
  by (simp add: hello_header_def ustar_header_def bytes_def cstr_def)

lemma hello_size: "parseoct (drop 124 hello_header) 12 = 5"
  by (simp add: hello_header_def ustar_header_def bytes_def parseoct_def sum_list_replicate)

lemma hello_flag: "hello_header ! 156 = 0x30"
  by (simp add: hello_header_def ustar_header_def bytes_def nth_append)

lemma parseoct_blank:
  "list_all (\<lambda>c. c = 0x20 \<or> c = 0) (take n p) \<Longrightarrow> n \<le> length p \<Longrightarrow> parseoct p n = 0"
  by (simp add: parseoct_def skip_blank)

lemma zero_block_not_valid:
  assumes "length hdr = 512" and "is_end_of_archive hdr"
  shows "\<not> verify_checksum hdr"
proof -
  have z: "hdr = replicate 512 0"
    using assms by (intro replicate_eqI) (simp_all add: is_end_of_archive_all list_all_iff)
  show ?thesis
    by (simp add: z verify_checksum_def cksum_loop_fields parseoct_blank sum_list_replicate
        list_all_iff)
qed


lemma untar_entry_header:
  assumes len: "512 \<le> length (stream w)"
    and ck: "verify_checksum (take 512 (stream w))"
  shows "untar_entry path f w =
     (case dispatch (take 512 (stream w) @ [0, 0]) (parseoct (drop 124 (take 512 (stream w))) 12) f
             (log (Ev_fread 512) (w\<lparr>stream := drop 512 (stream w)\<rparr>)) of
        None \<Rightarrow> (Some Undefined_behaviour, f, log (Ev_fread 512) (w\<lparr>stream := drop 512 (stream w)\<rparr>))
      | Some (filesize, f1, buff1, w2) \<Rightarrow>
          (case payload_loop path filesize f1 buff1 w2 of
             (True, f2, w3) \<Rightarrow> (Some Short_read, f2, w3)
           | (False, f2, w3) \<Rightarrow>
               (case f2 of
                  None \<Rightarrow> (None, None, w3)
                | Some h \<Rightarrow> (None, None, fclose h w3))))"
proof -
  define hdr where "hdr = take 512 (stream w)"
  have l: "length hdr = 512" using len by (simp add: hdr_def)
  have ne: "\<not> is_end_of_archive hdr"
    using zero_block_not_valid[OF l] ck by (auto simp: hdr_def)
  have b: "take 512 (stream w) @ drop 512 (replicate 514 0) = hdr @ [0, 0]"
    by (simp add: hdr_def numeral_2_eq_2)
  have sz: "parseoct (drop 124 (hdr @ [0, 0])) 12 = parseoct (drop 124 hdr) 12"
    using l parseoct_prefix[of 12 "drop 124 hdr" "[0, 0]"] by simp
  show ?thesis
    unfolding untar_entry_def fread_512[OF len] prod.case b
    using ne ck l
    by (simp add: is_end_of_archive_prefix verify_checksum_prefix sz hdr_def[symmetric] del: drop_append)
qed

lemma untar_loop_zero_block:
  assumes "take 512 (stream w) = replicate 512 0"
  shows "untar_loop path f w =
     (End_of_archive, f,
      puts (Name path) (fputs (Text ''End of '') Stdout
        (log (Ev_fread 512) (w\<lparr>stream := drop 512 (stream w)\<rparr>))))"
proof -
  have len: "512 \<le> length (stream w)"
    using arg_cong[OF assms, of length] by simp
  have buff: "is_end_of_archive (take 512 (stream w) @ drop 512 (replicate 514 0))"
    by (simp add: is_end_of_archive_all assms list_all_iff)
  have "untar_entry path f w =
     (Some End_of_archive, f,
      puts (Name path) (fputs (Text ''End of '') Stdout
        (log (Ev_fread 512) (w\<lparr>stream := drop 512 (stream w)\<rparr>))))"
    using buff by (simp add: untar_entry_def fread_512[OF len])
  then show ?thesis
    by (subst untar_loop.simps) simp
qed

lemma payload_step_short_write:
  assumes pos: "0 <s filesize"
    and len: "512 \<le> length (stream w)"
    and lim: "wlimit w = l # ls" "l < min (nat (sint filesize)) 512"
    and h: "map_of (handles w) h = Some p" "fs w p = Some (File c)"
  shows "payload_step path filesize (Some h) buff w =
     Inr (filesize - of_nat (if filesize <s 512 then unat filesize else 512), None,
          take 512 (stream w) @ drop 512 buff,
          w\<lparr>stream := drop 512 (stream w),
            fs := (fs w)(p \<mapsto> File (c @ take l (stream w))),
            handles := filter (\<lambda>(h', q). h' \<noteq> h) (handles w),
            wlimit := ls,
            trace := trace w @
              [Ev_fread 512, Ev_fwrite h (take (min (nat (sint filesize)) 512) (stream w)) l,
               Ev_print Stderr (Text ''Failed write\<newline>''), Ev_fclose h]\<rparr>)"
proof -
  define n where "n = (if filesize <s 512 then unat filesize else 512)"
  define buff1 where "buff1 = take 512 (stream w) @ drop 512 buff"
  define w1 where "w1 = log (Ev_fread 512) (w\<lparr>stream := drop 512 (stream w)\<rparr>)"
  have nn: "0 \<le> sint filesize" using pos by (simp add: word_sless_alt)
  have n: "n = min (nat (sint filesize)) 512"
    using unat_nonneg_sint[OF nn] by (auto simp: n_def word_sless_alt min_def)
  have d: "take n buff1 = take n (stream w)"
    using len by (simp add: buff1_def n)
  have ld: "length (take n (stream w)) = n"
    using len by (simp add: n)
  have ln: "l < n" using lim(2) n by simp
  have fw: "fwrite h (take n buff1) w1 =
      (l, log (Ev_fwrite h (take n (stream w)) l)
            (w1\<lparr>fs := (fs w)(p \<mapsto> File (c @ take l (stream w))), wlimit := ls\<rparr>))"
    unfolding d using lim(1) h ld ln
    by (simp add: fwrite_def Let_def w1_def)
  have neq: "l \<noteq> n" using ln by simp
  have eq: "payload_step path filesize (Some h) buff w =
      Inr (filesize - of_nat n, None, buff1,
           fclose h (fputs (Text ''Failed write\<newline>'') Stderr
             (log (Ev_fwrite h (take n (stream w)) l)
               (w1\<lparr>fs := (fs w)(p \<mapsto> File (c @ take l (stream w))), wlimit := ls\<rparr>))))"
    using neq
    by (simp only: payload_step_full[OF len] Let_def option.case
        n_def[symmetric] buff1_def[symmetric] w1_def[symmetric] fw prod.case) simp
  show ?thesis
    unfolding eq
    by (simp add: n_def[symmetric] buff1_def w1_def n fclose_def fputs_def log_def)
qed

lemma dispatch_regular:
  assumes "buff ! 156 = 0x30 \<or> buff ! 156 = 0"
  shows "dispatch buff filesize f w =
     (case create_file buff (parseoct (drop 100 buff) 8)
             (puts (Name (cstr buff)) (fputs (Text '' Extracting file '') Stdout w)) of
        None \<Rightarrow> None
      | Some (f', buff', w') \<Rightarrow> Some (filesize, f', buff', w'))"
  using assms by (auto simp: dispatch_def)

lemma create_file_direct:
  "fopen_w (cstr pathname) w = (Some h, w1) \<Longrightarrow>
   create_file pathname mode w = Some (Some h, pathname, w1)"
  by (simp add: create_file_def)

lemma hello_archive_head: "take 512 hello_archive = hello_header" "drop 512 hello_archive =
    bytes ''hello'' @ replicate 507 0 @ replicate 512 0"
  by (simp_all add: hello_archive_def hello_length)

lemma payload_loop_short_read:
  assumes "0 <s filesize" and "length (stream w) < 512"
  shows "payload_loop path filesize f buff w =
     (True, f,
      puts (Num (length (stream w)))
        (fputs (Text '': Expected 512, got '') Stderr
           (fputs (Name path) Stderr
              (fputs (Text ''Short read on '') Stderr
                 (log (Ev_fread (length (stream w))) (w\<lparr>stream := []\<rparr>))))))"
  using assms
  by (subst payload_loop.simps) (simp add: payload_step_def fread_short)

lemma hello_dispatch:
  assumes "take 512 (stream v) = hello_header" and "fs v = Map.empty"
  shows "dispatch (take 512 (stream v) @ [0, 0]) (parseoct (drop 124 (take 512 (stream v))) 12) None
           (log (Ev_fread 512) (v\<lparr>stream := drop 512 (stream v)\<rparr>)) =
         Some (5, Some (next_handle v), hello_header @ [0, 0],
           (entry_world '' Extracting file '' hello_header v)
             \<lparr>fs := [bytes ''a.txt'' \<mapsto> File []],
              handles := (next_handle v, bytes ''a.txt'') # handles v,
              next_handle := Suc (next_handle v),
              trace := trace (entry_world '' Extracting file '' hello_header v) @
                [Ev_fopen (bytes ''a.txt'') (Some (next_handle v))]\<rparr>)"
proof -
  define v1 where "v1 = puts (Name (bytes ''a.txt'')) (fputs (Text '' Extracting file '') Stdout
      (log (Ev_fread 512) (v\<lparr>stream := drop 512 (stream v)\<rparr>)))"
  have v1e: "entry_world '' Extracting file '' hello_header v = v1"
    by (simp add: entry_world_def hello_name v1_def)
  have fo: "fopen_w (bytes ''a.txt'') v1 =
      (Some (next_handle v),
       v1\<lparr>fs := [bytes ''a.txt'' \<mapsto> File []],
          handles := (next_handle v, bytes ''a.txt'') # handles v,
          next_handle := Suc (next_handle v),
          trace := trace v1 @ [Ev_fopen (bytes ''a.txt'') (Some (next_handle v))]\<rparr>)"
    using assms(2)
    by (simp add: fopen_w_def v1_def parent_ok_def parent_def bytes_def log_def)
  show ?thesis
    unfolding assms(1) hello_size v1e
    using hello_flag hello_length fo
    by (simp add: dispatch_regular nth_append hello_name create_file_direct v1_def[symmetric])
qed

lemma cstr_nth: "j < strlen s \<Longrightarrow> cstr s ! j = s ! j"
  by (simp add: strlen_def cstr_def takeWhile_nth)

lemma cstr_take: "j \<le> strlen s \<Longrightarrow> take j (cstr s) = take j s"
proof (induction s arbitrary: j)
  case Nil
  then show ?case by (simp add: cstr_def)
next
  case (Cons x s)
  then show ?case
    by (cases j) (auto simp: strlen_def cstr_def split: if_splits)
qed

lemma cstr_strip_trailing:
  assumes "strlen b \<noteq> 0"
  shows "cstr (strip_trailing b) = strip_slash (cstr b)"
proof -
  let ?n = "strlen b"
  have ne: "cstr b \<noteq> []" using assms by (simp add: strlen_def)
  have lst: "last (cstr b) = b ! (?n - 1)"
    using assms ne by (simp add: last_conv_nth cstr_nth strlen_def[symmetric])
  have "cstr (b[?n - 1 := 0]) = butlast (cstr b)"
    using assms by (simp add: cstr_cut butlast_conv_take cstr_take strlen_def[symmetric])
  with lst ne show ?thesis
    by (simp add: strip_trailing_def strip_slash_def)
qed

lemma name_field_cstr:
  assumes "0 \<in> set (take 100 hdr)"
  shows "cstr hdr = name_field hdr"
proof -
  have "hdr = take 100 hdr @ drop 100 hdr" by simp
  then have "cstr hdr = takeWhile (\<lambda>c. c \<noteq> 0) (take 100 hdr @ drop 100 hdr)"
    by (simp add: cstr_def)
  also have "\<dots> = takeWhile (\<lambda>c. c \<noteq> 0) (take 100 hdr)"
    using assms by (intro takeWhile_append1[of 0]) simp_all
  finally show ?thesis by (simp add: name_field_def cstr_def)
qed

lemma dispatch_directory:
  assumes "buff ! 156 = 0x35"
  shows "dispatch buff filesize f w =
     (case create_dir buff (parseoct (drop 100 buff) 8)
             (puts (Name (cstr buff)) (fputs (Text '' Extracting dir '') Stdout w)) of
        None \<Rightarrow> None
      | Some (buff', w') \<Rightarrow> Some (0, f, buff', w'))"
  using assms by (simp add: dispatch_def)

lemma payload_loop_zero [simp]: "payload_loop path 0 f buff w = (False, f, w)"
  by (subst payload_loop.simps) simp

lemma create_dir_trace_grows:
  assumes "create_dir pathname mode w = Some (b', w')"
  shows "\<exists>t. trace w' = trace w @ t"
  by (rule create_dir_rel[where R = "\<lambda>w w'. \<exists>t. trace w' = trace w @ t", OF _ _ _ _ assms])
     (auto simp: mkdir_def)

text \<open>The first thing \<^verbatim>\<open>create_dir\<close> does is \<^verbatim>\<open>mkdir\<close> on the stripped string.\<close>

lemma create_dir_first_mkdir:
  assumes "create_dir pathname mode w = Some (b', w')"
  shows "\<exists>r t. trace w' = trace w @ Ev_mkdir (strip_slash (cstr pathname)) mode r # t"
proof -
  from assms have nz: "strlen pathname \<noteq> 0"
    by (subst (asm) create_dir.simps) (simp split: if_splits)
  let ?p = "cstr (strip_trailing pathname)"
  obtain r w1 where m1: "mkdir ?p mode w = (r, w1)"
    by force
  have t1: "trace w1 = trace w @ [Ev_mkdir ?p mode (r = 0)]"
    using m1 by (auto simp: mkdir_def split: if_splits)
  have "\<exists>t. trace w' = trace w1 @ t"
  proof (cases "r = 0")
    case True
    with assms nz m1 have "w' = w1"
      by (subst (asm) create_dir.simps) auto
    then show ?thesis by simp
  next
    case False
    show ?thesis
    proof (cases "strrchr (strip_trailing pathname) 0x2F")
      case None
      with assms nz m1 False have "w' = report_failure (strip_trailing pathname) w1"
        by (subst (asm) create_dir.simps) auto
      then show ?thesis by (simp add: report_failure_def)
    next
      case (Some p)
      with assms nz m1 False obtain pathname2 w2 where
        rec: "create_dir ((strip_trailing pathname)[p := 0]) 493 w1 = Some (pathname2, w2)"
        and fin: "w' = (case mkdir (cstr (pathname2[p := 0x2F])) mode w2 of
                          (r', w3) \<Rightarrow> if r' \<noteq> 0 then report_failure (pathname2[p := 0x2F]) w3 else w3)"
        by (subst (asm) create_dir.simps) (auto split: option.splits prod.splits)
      from create_dir_trace_grows[OF rec] obtain t where t: "trace w2 = trace w1 @ t"
        by blast
      show ?thesis
        unfolding fin using t
        by (auto simp: mkdir_def report_failure_def split: prod.splits if_splits)
    qed
  qed
  with t1 show ?thesis
    by (auto simp: cstr_strip_trailing[OF nz])
qed

lemma create_dir_direct:
  assumes "strlen pathname \<noteq> 0" and "p = strip_slash (cstr pathname)"
    and "p \<noteq> []" and "fs w p = None" and "parent_ok (fs w) p"
  shows "create_dir pathname mode w =
     Some (strip_trailing pathname, log (Ev_mkdir p mode True) (w\<lparr>fs := (fs w)(p \<mapsto> Dir mode)\<rparr>))"
  using assms
  by (subst create_dir.simps) (simp add: cstr_strip_trailing mkdir_def)

lemma sub_length: "length sub_header = 512"
  by (simp add: sub_header_def ustar_header_def bytes_def)

lemma sub_cksum: "verify_checksum sub_header"
  using sub_length
  by (simp add: verify_checksum_def cksum_loop_fields)
     (simp add: sub_header_def ustar_header_def bytes_def parseoct_def sum_list_replicate)

lemma sub_name: "cstr sub_header = bytes ''sub/''" "name_field sub_header = bytes ''sub/''"
  by (simp_all add: sub_header_def ustar_header_def bytes_def cstr_def name_field_def)

lemma sub_fields:
  "parseoct (drop 124 sub_header) 12 = 1000" "parseoct (drop 100 sub_header) 8 = 493"
  "sub_header ! 156 = 0x35"
  by (simp_all add: sub_header_def ustar_header_def bytes_def parseoct_def nth_append)

text \<open>A directory entry whose \<^verbatim>\<open>create_dir\<close> returns: the pass goes on to the next header.\<close>

lemma untar_entry_directory:
  assumes len: "512 \<le> length (stream w)"
    and hdr: "hdr = take 512 (stream w)"
    and ck: "verify_checksum hdr"
    and flag: "hdr ! 156 = 0x35"
    and cd: "create_dir (hdr @ [0, 0]) (parseoct (drop 100 hdr) 8)
               (entry_world '' Extracting dir '' hdr w) = Some (buff', w')"
  shows "untar_entry path None w = (None, None, w')"
proof -
  have l: "length hdr = 512" using len hdr by simp
  have m: "parseoct (drop 100 (hdr @ [0, 0])) 8 = parseoct (drop 100 hdr) 8"
    using l parseoct_prefix[of 8 "drop 100 hdr" "[0, 0]"] by simp
  have f: "(hdr @ [0, 0]) ! 156 = 0x35"
    using flag l by (simp add: nth_append)
  have d: "dispatch (hdr @ [0, 0]) (parseoct (drop 124 hdr) 12) None
             (log (Ev_fread 512) (w\<lparr>stream := drop 512 (stream w)\<rparr>)) =
           Some (0, None, buff', w')"
    unfolding dispatch_directory[OF f] m
    using cd by (simp add: entry_world_def)
  show ?thesis
    using ck d unfolding hdr
    by (simp add: untar_entry_header[OF len])
qed

lemma fopen_w_trace:
  "trace (snd (fopen_w p w)) = trace w @ [Ev_fopen p (fst (fopen_w p w))]"
  by (simp add: fopen_w_def)

lemma create_file_first_fopen:
  assumes "create_file pathname mode w = Some (f, b', w')"
  shows "\<exists>r t. trace w' = trace w @ Ev_fopen (cstr pathname) r # t"
proof -
  obtain f1 w1 where o1: "fopen_w (cstr pathname) w = (f1, w1)"
    by force
  have t1: "trace w1 = trace w @ [Ev_fopen (cstr pathname) f1]"
    using fopen_w_trace[of "cstr pathname" w] o1 by simp
  have "\<exists>t. trace w' = trace w1 @ t"
  proof (cases f1)
    case (Some h)
    with assms o1 show ?thesis by (auto simp: create_file_def)
  next
    case None
    show ?thesis
    proof (cases "strrchr pathname 0x2F")
      case n: None
      with assms o1 None show ?thesis by (auto simp: create_file_def)
    next
      case (Some p)
      with assms o1 None obtain pathname2 w2 where
        rec: "create_dir (pathname[p := 0]) 493 w1 = Some (pathname2, w2)"
        and fin: "w' = snd (fopen_w (cstr (pathname2[p := 0x2F])) w2)"
        by (auto simp: create_file_def split: option.splits prod.splits)
      from create_dir_trace_grows[OF rec] obtain t where "trace w2 = trace w1 @ t"
        by blast
      then show ?thesis
        unfolding fin by (simp add: fopen_w_trace)
    qed
  qed
  with t1 show ?thesis by auto
qed

lemma files_of_file [simp]: "files_of (m(p \<mapsto> File c)) = (files_of m)(p \<mapsto> c)"
  by (auto simp: files_of_def)

lemma files_of_mkdir: "files_of (fs (snd (mkdir p m w))) = files_of (fs w)"
  by (auto simp: mkdir_def files_of_def)

lemma create_dir_files:
  assumes "create_dir pathname mode w = Some (b', w')"
  shows "files_of (fs w') = files_of (fs w)"
  by (rule create_dir_rel[where R = "\<lambda>w w'. files_of (fs w') = files_of (fs w)", OF _ _ _ _ assms])
     (simp_all add: files_of_mkdir)

lemma fopen_w_Some:
  assumes "fopen_w p w = (Some h, w1)"
  shows "map_of (handles w1) h = Some p \<and> fs w1 p = Some (File []) \<and>
         files_of (fs w1) = (files_of (fs w))(p \<mapsto> [])"
  using assms by (auto simp: fopen_w_def split: if_splits)

lemma create_file_opened:
  assumes "create_file pathname mode w = Some (Some h, b', w1)"
  shows "\<exists>p. map_of (handles w1) h = Some p \<and> fs w1 p = Some (File []) \<and>
             files_of (fs w1) = (files_of (fs w))(p \<mapsto> [])"
proof -
  obtain f0 w0 where o1: "fopen_w (cstr pathname) w = (f0, w0)"
    by force
  show ?thesis
  proof (cases f0)
    case (Some h0)
    with assms o1 have "fopen_w (cstr pathname) w = (Some h, w1)"
      by (auto simp: create_file_def)
    from fopen_w_Some[OF this] show ?thesis by blast
  next
    case None
    have f0: "files_of (fs w0) = files_of (fs w)"
      using o1 None by (auto simp: fopen_w_def split: if_splits)
    from assms o1 None obtain p pathname2 w2 where
      rec: "create_dir (pathname[p := 0]) 493 w0 = Some (pathname2, w2)"
      and fin: "fopen_w (cstr (pathname2[p := 0x2F])) w2 = (Some h, w1)"
      by (auto simp: create_file_def split: option.splits prod.splits)
    from fopen_w_Some[OF fin] create_dir_files[OF rec] f0 show ?thesis
      by auto
  qed
qed

lemma payload_step_write:
  assumes pos: "0 <s filesize"
    and len: "512 \<le> length (stream w)"
    and lim: "wlimit w = []"
    and h: "map_of (handles w) h = Some p" "fs w p = Some (File c)"
  shows "payload_step path filesize (Some h) buff w =
     Inr (filesize - of_nat (if filesize <s 512 then unat filesize else 512), Some h,
          take 512 (stream w) @ drop 512 buff,
          w\<lparr>stream := drop 512 (stream w),
            fs := (fs w)(p \<mapsto> File (c @ take (min (nat (sint filesize)) 512) (stream w))),
            wlimit := [],
            trace := trace w @
              [Ev_fread 512,
               Ev_fwrite h (take (min (nat (sint filesize)) 512) (stream w))
                 (min (nat (sint filesize)) 512)]\<rparr>)"
proof -
  define n where "n = (if filesize <s 512 then unat filesize else 512)"
  define buff1 where "buff1 = take 512 (stream w) @ drop 512 buff"
  define w1 where "w1 = log (Ev_fread 512) (w\<lparr>stream := drop 512 (stream w)\<rparr>)"
  have nn: "0 \<le> sint filesize" using pos by (simp add: word_sless_alt)
  have n: "n = min (nat (sint filesize)) 512"
    using unat_nonneg_sint[OF nn] by (auto simp: n_def word_sless_alt min_def)
  have d: "take n buff1 = take n (stream w)"
    using len by (simp add: buff1_def n)
  have ld: "length (take n (stream w)) = n"
    using len by (simp add: n)
  have fw: "fwrite h (take n buff1) w1 =
      (n, log (Ev_fwrite h (take n (stream w)) n)
            (w1\<lparr>fs := (fs w)(p \<mapsto> File (c @ take n (stream w))), wlimit := []\<rparr>))"
    unfolding d using lim h ld
    by (simp add: fwrite_def Let_def w1_def)
  have eq: "payload_step path filesize (Some h) buff w =
      Inr (filesize - of_nat n, Some h, buff1,
           log (Ev_fwrite h (take n (stream w)) n)
               (w1\<lparr>fs := (fs w)(p \<mapsto> File (c @ take n (stream w))), wlimit := []\<rparr>))"
    by (simp only: payload_step_full[OF len] Let_def option.case
        n_def[symmetric] buff1_def[symmetric] w1_def[symmetric] fw prod.case) simp
  show ?thesis
    unfolding eq
    by (simp add: n_def[symmetric] buff1_def w1_def n[symmetric] log_def)
qed

text \<open>
  With an open handle and no write limit the payload loop appends to the file the first
  \<open>size\<close> bytes of what it reads.
\<close>

lemma payload_loop_write:
  assumes "wlimit w = []" and "map_of (handles w) h = Some p" and "fs w p = Some (File c)"
    and "512 * blocks (nat (sint filesize)) \<le> length (stream w)"
  shows "\<exists>w'. payload_loop path filesize (Some h) buff w = (False, Some h, w') \<and>
     fs w' = (fs w)(p \<mapsto> File (c @ take (nat (sint filesize)) (stream w))) \<and>
     stream w' = drop (512 * blocks (nat (sint filesize))) (stream w) \<and>
     handles w' = handles w \<and> wlimit w' = []"
  using assms
proof (induction path filesize "Some h" buff w arbitrary: c rule: payload_loop.induct)
  case (1 path filesize buff w)
  show ?case
  proof (cases "0 <s filesize")
    case False
    then have "nat (sint filesize) = 0" by (simp add: word_sless_alt)
    with False "1.prems" show ?thesis
      by (subst payload_loop.simps) (simp add: blocks_def map_upd_triv)
  next
    case True
    define s where "s = nat (sint filesize)"
    define n where "n = min s 512"
    define filesize' where
      "filesize' = filesize - of_nat (if filesize <s 512 then unat filesize else 512)"
    define buff1 where "buff1 = take 512 (stream w) @ drop 512 buff"
    define w1 where "w1 = w\<lparr>stream := drop 512 (stream w),
            fs := (fs w)(p \<mapsto> File (c @ take n (stream w))),
            wlimit := [],
            trace := trace w @ [Ev_fread 512, Ev_fwrite h (take n (stream w)) n]\<rparr>"
    have spos: "0 < s" using True by (simp add: s_def word_sless_alt)
    have bl: "blocks s = Suc (blocks (s - n))" unfolding n_def by (rule blocks_step[OF spos])
    have len0: "512 * blocks s \<le> length (stream w)" using "1.prems"(4) by (simp add: s_def)
    have len: "512 \<le> length (stream w)" using len0 bl by simp
    have s': "nat (sint filesize') = s - n"
      unfolding filesize'_def sint_step[OF True] s_def n_def by simp
    have step: "payload_step path filesize (Some h) buff w = Inr (filesize', Some h, buff1, w1)"
      using payload_step_write[OF True len "1.prems"(1,2,3), of path buff]
      by (simp add: filesize'_def buff1_def w1_def s_def n_def)
    have len1: "512 * blocks (nat (sint filesize')) \<le> length (stream w1)"
      using len0 bl by (simp add: s' w1_def)
    have p1: "wlimit w1 = []" "map_of (handles w1) h = Some p"
      "fs w1 p = Some (File (c @ take n (stream w)))"
      using "1.prems"(2) by (simp_all add: w1_def)
    from "1.hyps"[OF True step refl refl refl p1 len1] obtain w' where
      r: "payload_loop path filesize' (Some h) buff1 w1 = (False, Some h, w')"
      and f': "fs w' = (fs w1)(p \<mapsto> File ((c @ take n (stream w)) @ take (s - n) (stream w1)))"
      and st': "stream w' = drop (512 * blocks (s - n)) (stream w1)"
      and hw: "handles w' = handles w1" "wlimit w' = []"
      unfolding s' by blast
    have tk: "take n (stream w) @ take (s - n) (drop 512 (stream w)) = take s (stream w)"
    proof (cases "s \<le> 512")
      case True
      then show ?thesis by (simp add: n_def min_def)
    next
      case False
      then have "s = 512 + (s - 512)" by simp
      then have "take s (stream w) = take 512 (stream w) @ take (s - 512) (drop 512 (stream w))"
        by (metis take_add)
      with False show ?thesis by (simp add: n_def min_def)
    qed
    have "payload_loop path filesize (Some h) buff w = (False, Some h, w')"
      using True step r by (subst payload_loop.simps) simp
    moreover have "fs w' = (fs w)(p \<mapsto> File (c @ take s (stream w)))"
      using f' tk by (simp add: w1_def)
    moreover have "stream w' = drop (512 * blocks s) (stream w)"
      using st' by (simp add: bl w1_def add.commute)
    moreover have "handles w' = handles w" "wlimit w' = []"
      using hw by (simp_all add: w1_def)
    ultimately show ?thesis by (simp add: s_def)
  qed
qed

lemma padded_length: "n + (512 - n mod 512) mod 512 = 512 * blocks n"
proof -
  define q where "q = n div 512"
  define r where "r = n mod 512"
  have n: "n = 512 * q + r" and r: "r < 512"
    by (simp_all add: q_def r_def)
  have c: "n \<le> 512 * blocks n" "512 * blocks n < n + 512"
    using blocks_ceiling[of n] by simp_all
  show ?thesis
  proof (cases "r = 0")
    case True
    then have "n + (512 - n mod 512) mod 512 = 512 * q"
      using n by (simp add: r_def[symmetric])
    moreover have "blocks n = q" using c n True by linarith
    ultimately show ?thesis by simp
  next
    case False
    then have "(512 - r) mod 512 = 512 - r" using r by simp
    then have "n + (512 - n mod 512) mod 512 = 512 * (q + 1)"
      using n r by (simp add: r_def[symmetric])
    moreover have "blocks n = q + 1" using c n r False by linarith
    ultimately show ?thesis by simp
  qed
qed

lemma map_of_closed: "map_of (filter (\<lambda>(h', q). h' \<noteq> h) xs) h = None"
  by (induction xs) auto

lemma empty_header_facts:
  "length empty_header = 512" "verify_checksum empty_header" "empty_header ! 156 = 0x30"
  "parseoct (drop 124 empty_header) 12 = 0" "cstr empty_header = bytes ''a.txt''"
proof -
  show l: "length empty_header = 512"
    by (simp add: empty_header_def ustar_header_def bytes_def)
  show "verify_checksum empty_header"
    using l by (simp add: verify_checksum_def cksum_loop_fields)
      (simp add: empty_header_def ustar_header_def bytes_def parseoct_def sum_list_replicate)
  show "empty_header ! 156 = 0x30"
    by (simp add: empty_header_def ustar_header_def bytes_def nth_append)
  show "parseoct (drop 124 empty_header) 12 = 0"
    by (simp add: empty_header_def ustar_header_def bytes_def parseoct_def)
  show "cstr empty_header = bytes ''a.txt''"
    by (simp add: empty_header_def ustar_header_def bytes_def cstr_def)
qed

lemma big_header_facts:
  "length big_header = 512" "verify_checksum big_header" "big_header ! 156 = 0x30"
  "parseoct (drop 124 big_header) 12 = 0x80000000" "cstr big_header = bytes ''a.txt''"
proof -
  show l: "length big_header = 512"
    by (simp add: big_header_def ustar_header_def bytes_def)
  show "verify_checksum big_header"
    using l by (simp add: verify_checksum_def cksum_loop_fields)
      (simp add: big_header_def ustar_header_def bytes_def parseoct_def sum_list_replicate)
  show "big_header ! 156 = 0x30"
    by (simp add: big_header_def ustar_header_def bytes_def nth_append)
  show "parseoct (drop 124 big_header) 12 = 0x80000000"
    by (simp add: big_header_def ustar_header_def bytes_def parseoct_def)
  show "cstr big_header = bytes ''a.txt''"
    by (simp add: big_header_def ustar_header_def bytes_def cstr_def)
qed

text \<open>Opening a file whose name has no separator, in a directory without that name.\<close>

lemma create_file_fresh:
  assumes "cstr buff = bytes ''a.txt''" and "fs w = Map.empty"
  shows "create_file buff mode w =
     Some (Some (next_handle w), buff,
       w\<lparr>fs := [bytes ''a.txt'' \<mapsto> File []],
         handles := (next_handle w, bytes ''a.txt'') # handles w,
         next_handle := Suc (next_handle w),
         trace := trace w @ [Ev_fopen (bytes ''a.txt'') (Some (next_handle w))]\<rparr>)"
  using assms
  by (simp add: create_file_def fopen_w_def parent_ok_def parent_def log_def) (simp add: bytes_def)

subsection \<open>Paths and their leading directories\<close>

lemma has_double_slash_iff:
  "has_double_slash s = (\<exists>i. Suc i < length s \<and> s ! i = 0x2F \<and> s ! Suc i = 0x2F)"
proof (induction s rule: has_double_slash.induct)
  case (1 a b s)
  show ?case
  proof
    assume "has_double_slash (a # b # s)"
    then consider "a = 0x2F \<and> b = 0x2F" | "has_double_slash (b # s)" by auto
    then show "\<exists>i. Suc i < length (a # b # s) \<and> (a # b # s) ! i = 0x2F \<and> (a # b # s) ! Suc i = 0x2F"
    proof cases
      case 1
      then show ?thesis by (intro exI[of _ 0]) simp
    next
      case 2
      with 1 obtain i where "Suc i < length (b # s) \<and> (b # s) ! i = 0x2F \<and> (b # s) ! Suc i = 0x2F"
        by blast
      then show ?thesis by (intro exI[of _ "Suc i"]) simp
    qed
  next
    assume "\<exists>i. Suc i < length (a # b # s) \<and> (a # b # s) ! i = 0x2F \<and> (a # b # s) ! Suc i = 0x2F"
    then obtain i where i: "Suc i < length (a # b # s)" "(a # b # s) ! i = 0x2F"
      "(a # b # s) ! Suc i = 0x2F" by blast
    show "has_double_slash (a # b # s)"
    proof (cases i)
      case 0
      with i show ?thesis by simp
    next
      case (Suc j)
      with i have "Suc j < length (b # s) \<and> (b # s) ! j = 0x2F \<and> (b # s) ! Suc j = 0x2F"
        by simp
      with 1 show ?thesis by auto
    qed
  qed
qed simp_all

lemma has_double_slash_take: "\<not> has_double_slash s \<Longrightarrow> \<not> has_double_slash (take k s)"
  by (auto simp: has_double_slash_iff)

lemma no_double_slash_before:
  "\<not> has_double_slash s \<Longrightarrow> p < length s \<Longrightarrow> s ! p = 0x2F \<Longrightarrow> 0 < p \<Longrightarrow> s ! (p - 1) \<noteq> 0x2F"
  using has_double_slash_iff[of s] by (cases p) auto

lemma mkdir_paths_append [simp]: "mkdir_paths (a @ b) = mkdir_paths a @ mkdir_paths b"
  by (induction a rule: mkdir_paths.induct) simp_all

lemma fopen_paths_append [simp]: "fopen_paths (a @ b) = fopen_paths a @ fopen_paths b"
  by (induction a rule: fopen_paths.induct) simp_all

subsection \<open>The last separator of a string\<close>







lemma no_double_slash_strip: "\<not> has_double_slash s \<Longrightarrow> \<not> has_double_slash (strip_slash s)"
  by (simp add: strip_slash_def butlast_conv_take has_double_slash_take)

lemma ancestor_take: "p < length t \<Longrightarrow> t ! p = 0x2F \<Longrightarrow> ancestor_of t (take p t)"
  by (simp add: ancestor_of_def min_def)

lemma ancestor_trans:
  assumes "ancestor_of (take p t) q" and "p < length t"
  shows "ancestor_of t q"
proof -
  from assms have l: "length q < p" by (simp add: ancestor_of_def)
  with assms show ?thesis
    by (auto simp: ancestor_of_def min_def)
qed

lemma mkdir_trace:
  "mkdir p m w = (r, w1) \<Longrightarrow> trace w1 = trace w @ [Ev_mkdir p m (r = 0)]"
  by (auto simp: mkdir_def split: if_splits)

lemma report_failure_trace:
  "trace (report_failure b w) = trace w @
     [Ev_print Stderr (Text ''Could not create directory ''), Ev_print Stderr (Name (cstr b)),
      Ev_print Stderr newline]"
  by (simp add: report_failure_def)

subsection \<open>The buffer and the calls of the materializer\<close>

text \<open>
  The cut that \<^verbatim>\<open>create_dir\<close> and \<^verbatim>\<open>create_file\<close> make at the last separator of a
  string without two adjacent separators, and what comes restored from the recursive call.
\<close>

lemma cut_facts:
  assumes sl: "strrchr b 0x2F = Some p"
    and nd: "\<not> has_double_slash (cstr b)"
    and nz: "strlen (b[p := 0]) \<noteq> 0"
  shows "p < strlen b" and "b ! p = 0x2F" and "cstr b ! p = 0x2F" and "0 < p"
    and "cstr (b[p := 0]) = take p (cstr b)"
    and "strip_trailing (b[p := 0]) = b[p := 0]"
    and "(b[p := 0])[p := 0x2F] = b"
    and "\<not> has_double_slash (cstr (b[p := 0]))"
proof -
  show p: "p < strlen b" and s: "b ! p = 0x2F"
    using strrchr_Some[OF sl] by simp_all
  show c: "cstr b ! p = 0x2F"
    using p s by (simp add: cstr_nth)
  show z: "0 < p"
    using nz p by (simp add: strlen_cut)
  show t: "cstr (b[p := 0]) = take p (cstr b)"
    using p by (simp add: cstr_cut cstr_take)
  have "cstr b ! (p - 1) \<noteq> 0x2F"
    using no_double_slash_before[OF nd _ c z] p by (simp add: strlen_def)
  then have "b ! (p - 1) \<noteq> 0x2F"
    using p by (simp add: cstr_nth)
  then show "strip_trailing (b[p := 0]) = b[p := 0]"
    using p z by (simp add: strip_trailing_def strlen_cut)
  show "(b[p := 0])[p := 0x2F] = b"
    using s by (metis list_update_id list_update_overwrite)
  show "\<not> has_double_slash (cstr (b[p := 0]))"
    unfolding t using nd by (rule has_double_slash_take)
qed

lemma create_dir_nonempty:
  "create_dir pathname mode w = Some r \<Longrightarrow> strlen pathname \<noteq> 0"
  by (subst (asm) create_dir.simps) (simp split: if_splits)

text \<open>
  For a string without two adjacent separators \<^verbatim>\<open>create_dir\<close> gives the buffer restored with
  only the trailing separator stripped; it opens no file; its first and its last \<^verbatim>\<open>mkdir\<close>
  are on the stripped string, and the others on leading parts of it that end before a
  separator.
\<close>

lemma create_dir_clean:
  assumes "create_dir pathname mode w = Some (b', w')"
    and "\<not> has_double_slash (cstr pathname)"
  shows "b' = strip_trailing pathname \<and>
         (\<exists>es. trace w' = trace w @ es \<and> fopen_paths es = [] \<and> mkdir_paths es \<noteq> [] \<and>
            hd (mkdir_paths es) = strip_slash (cstr pathname) \<and>
            last (mkdir_paths es) = strip_slash (cstr pathname) \<and>
            list_all (\<lambda>q. q = strip_slash (cstr pathname) \<or>
                          ancestor_of (strip_slash (cstr pathname)) q) (mkdir_paths es))"
  using assms
proof (induction pathname mode w arbitrary: b' w' rule: create_dir.induct)
  case (1 pathname mode w)
  let ?b = "strip_trailing pathname"
  let ?t = "strip_slash (cstr pathname)"
  have nz: "strlen pathname \<noteq> 0"
    using "1.prems"(1) by (rule create_dir_nonempty)
  have t: "cstr ?b = ?t"
    by (rule cstr_strip_trailing[OF nz])
  have nd: "\<not> has_double_slash (cstr ?b)"
    unfolding t using "1.prems"(2) by (rule no_double_slash_strip)
  obtain r w1 where m1: "mkdir (cstr ?b) mode w = (r, w1)"
    by force
  note t1 = mkdir_trace[OF m1]
  show ?case
  proof (cases "r = 0")
    case True
    with "1.prems" nz m1 have "b' = ?b" "w' = w1"
      by (subst (asm) create_dir.simps; auto)+
    with t1 t show ?thesis by simp
  next
    case False
    show ?thesis
    proof (cases "strrchr ?b 0x2F")
      case None
      with "1.prems" nz m1 False have "b' = ?b" "w' = report_failure ?b w1"
        by (subst (asm) create_dir.simps; auto)+
      with t1 t show ?thesis by (simp add: report_failure_trace)
    next
      case (Some p)
      with "1.prems" nz m1 False obtain pathname2 w2 where
        rec: "create_dir (?b[p := 0]) 493 w1 = Some (pathname2, w2)"
        and b': "b' = pathname2[p := 0x2F]"
        and fin: "w' = (case mkdir (cstr (pathname2[p := 0x2F])) mode w2 of
                          (r', w3) \<Rightarrow> if r' \<noteq> 0 then report_failure (pathname2[p := 0x2F]) w3 else w3)"
        by (subst (asm) create_dir.simps) (auto split: option.splits prod.splits)
      note cf = cut_facts[OF Some nd create_dir_nonempty[OF rec]]
      have st: "strip_slash (cstr (?b[p := 0])) = take p ?t"
        using cstr_strip_trailing[OF create_dir_nonempty[OF rec]] cf(5,6) t by simp
      note ih = "1.IH"[OF nz m1[symmetric] False Some rec cf(8), unfolded st cf(6)]
      from ih obtain es where
        p2: "pathname2 = ?b[p := 0]"
        and es: "trace w2 = trace w1 @ es" "fopen_paths es = []" "mkdir_paths es \<noteq> []"
          "list_all (\<lambda>q. q = take p ?t \<or> ancestor_of (take p ?t) q) (mkdir_paths es)"
        by blast
      have restored: "pathname2[p := 0x2F] = ?b"
        using p2 cf(7) by simp
      have pl: "p < length ?t" "?t ! p = 0x2F"
        using cf(1,3) t by (simp_all add: strlen_def)
      have anc: "list_all (\<lambda>q. q = ?t \<or> ancestor_of ?t q) (mkdir_paths es)"
        using es(4) ancestor_take[OF pl] ancestor_trans[OF _ pl(1)]
        by (auto simp: list_all_iff)
      obtain r' w3 where m3: "mkdir (cstr ?b) mode w2 = (r', w3)"
        by force
      note t3 = mkdir_trace[OF m3]
      have "trace w' = trace w @ Ev_mkdir ?t mode (r = 0) # es @ Ev_mkdir ?t mode (r' = 0) #
              (if r' \<noteq> 0 then [Ev_print Stderr (Text ''Could not create directory ''),
                 Ev_print Stderr (Name (cstr ?b)), Ev_print Stderr newline] else [])"
        using fin restored m3 t1 t3 es(1) t by (simp add: report_failure_trace)
      with b' restored es(2) anc show ?thesis
        by (auto split: if_splits)
    qed
  qed
qed

subsection \<open>The parent bootstrap\<close>









subsection \<open>The type flag\<close>

lemma scast_byte_inj: "(scast (c::byte) :: cint) = scast d \<Longrightarrow> c = d"
proof -
  assume a: "(scast c :: cint) = scast d"
  have "sint (scast c :: cint) = sint c" "sint (scast d :: cint) = sint d"
    by (simp_all add: sint_up_scast is_up)
  with a have "sint c = sint d" by simp
  then show "c = d" by (rule signed_word_eqI)
qed

lemma flag_tests:
  "(49 = (scast (c::byte) :: cint)) = (c = 0x31)"
  "(50 = (scast c :: cint)) = (c = 0x32)"
  "(51 = (scast c :: cint)) = (c = 0x33)"
  "(52 = (scast c :: cint)) = (c = 0x34)"
  "(53 = (scast c :: cint)) = (c = 0x35)"
  "(54 = (scast c :: cint)) = (c = 0x36)"
  using scast_byte_inj[of c "0x31"] scast_byte_inj[of c "0x32"] scast_byte_inj[of c "0x33"]
    scast_byte_inj[of c "0x34"] scast_byte_inj[of c "0x35"] scast_byte_inj[of c "0x36"]
  by auto

lemma dispatch_file:
  assumes "buff ! 156 \<notin> {0x31, 0x32, 0x33, 0x34, 0x35, 0x36}"
  shows "dispatch buff filesize f w =
     (case create_file buff (parseoct (drop 100 buff) 8)
             (puts (Name (cstr buff)) (fputs (Text '' Extracting file '') Stdout w)) of
        None \<Rightarrow> None
      | Some (f', buff', w') \<Rightarrow> Some (filesize, f', buff', w'))"
  using assms flag_tests[of "buff ! 156"] by (auto simp: dispatch_def Let_def)

lemma create_dir_no_fopen:
  assumes "create_dir pathname mode w = Some (b', w')"
  shows "\<exists>es. trace w' = trace w @ es \<and> fopen_paths es = []"
  by (rule create_dir_rel[where R = "\<lambda>w w'. \<exists>es. trace w' = trace w @ es \<and> fopen_paths es = []",
        OF _ _ _ _ assms])
     (auto simp: mkdir_def fputs_def)

text \<open>
  \<^verbatim>\<open>create_file\<close> on a string without two adjacent separators: the buffer comes back as
  it was, every \<^verbatim>\<open>fopen\<close> is on the string, every \<^verbatim>\<open>mkdir\<close> on a leading part of it that
  ends before a separator, and the handle that is returned is open on the string.
\<close>

lemma create_file_clean:
  assumes cf: "create_file pathname mode w = Some (f, b', w')"
    and nd: "\<not> has_double_slash (cstr pathname)"
  shows "b' = pathname \<and>
         (\<exists>es. trace w' = trace w @ es \<and> fopen_paths es \<noteq> [] \<and>
            list_all (\<lambda>q. q = cstr pathname) (fopen_paths es) \<and>
            list_all (ancestor_of (cstr pathname)) (mkdir_paths es)) \<and>
         (\<forall>h. f = Some h \<longrightarrow> map_of (handles w') h = Some (cstr pathname))"
proof -
  let ?n = "cstr pathname"
  obtain f1 w1 where o1: "fopen_w ?n w = (f1, w1)"
    by force
  have t1: "trace w1 = trace w @ [Ev_fopen ?n f1]"
    using fopen_w_trace[of ?n w] o1 by simp
  show ?thesis
  proof (cases f1)
    case (Some h)
    with cf o1 have "f = Some h" "b' = pathname" "w' = w1"
      by (auto simp: create_file_def)
    with t1 fopen_w_Some[OF o1[unfolded Some]] show ?thesis by simp
  next
    case None
    show ?thesis
    proof (cases "strrchr pathname 0x2F")
      case n: None
      with cf o1 None have "f = None" "b' = pathname" "w' = w1"
        by (auto simp: create_file_def)
      with t1 show ?thesis by simp
    next
      case (Some p)
      with cf o1 None obtain pathname2 w2 where
        rec: "create_dir (pathname[p := 0]) 493 w1 = Some (pathname2, w2)"
        and b': "b' = pathname2[p := 0x2F]"
        and fin: "fopen_w (cstr (pathname2[p := 0x2F])) w2 = (f, w')"
        by (auto simp: create_file_def split: option.splits prod.splits)
      note c = cut_facts[OF Some nd create_dir_nonempty[OF rec]]
      have st: "strip_slash (cstr (pathname[p := 0])) = take p ?n"
        using cstr_strip_trailing[OF create_dir_nonempty[OF rec]] c(5,6) by simp
      from create_dir_clean[OF rec c(8), unfolded st c(6)] obtain es where
        p2: "pathname2 = pathname[p := 0]"
        and es: "trace w2 = trace w1 @ es" "fopen_paths es = []"
          "list_all (\<lambda>q. q = take p ?n \<or> ancestor_of (take p ?n) q) (mkdir_paths es)"
        by blast
      have restored: "pathname2[p := 0x2F] = pathname"
        using p2 c(7) by simp
      have pl: "p < length ?n" "?n ! p = 0x2F"
        using c(1,3) by (simp_all add: strlen_def)
      have anc: "list_all (ancestor_of ?n) (mkdir_paths es)"
        using es(3) ancestor_take[OF pl] ancestor_trans[OF _ pl(1)]
        by (auto simp: list_all_iff)
      have t3: "trace w' = trace w @ Ev_fopen ?n None # es @ [Ev_fopen ?n f]"
        using fopen_w_trace[of ?n w2] fin restored es(1) t1 None by simp
      have "\<forall>h. f = Some h \<longrightarrow> map_of (handles w') h = Some ?n"
        using fopen_w_Some[of ?n w2 _ w'] fin restored by auto
      with b' restored t3 es(2) anc show ?thesis by simp
    qed
  qed
qed




lemma cstr_buffer: "cstr (hdr @ [0, 0]) = cstr hdr"
  by simp

lemma untar_entry_undefined:
  assumes len: "512 \<le> length (stream w)"
    and hdr: "hdr = take 512 (stream w)"
    and ck: "verify_checksum hdr"
    and flag: "hdr ! 156 = 0x35"
    and cd: "create_dir (hdr @ [0, 0]) (parseoct (drop 100 hdr) 8)
               (entry_world '' Extracting dir '' hdr w) = None"
  shows "fst (untar_entry path None w) = Some Undefined_behaviour"
proof -
  have l: "length hdr = 512" using len hdr by simp
  have m: "parseoct (drop 100 (hdr @ [0, 0])) 8 = parseoct (drop 100 hdr) 8"
    using l parseoct_prefix[of 8 "drop 100 hdr" "[0, 0]"] by simp
  have f: "(hdr @ [0, 0]) ! 156 = 0x35"
    using flag l by (simp add: nth_append)
  have d: "dispatch (hdr @ [0, 0]) (parseoct (drop 124 hdr) 12) None
             (log (Ev_fread 512) (w\<lparr>stream := drop 512 (stream w)\<rparr>)) = None"
    unfolding dispatch_directory[OF f] m
    using cd by (simp add: entry_world_def)
  show ?thesis
    using ck d unfolding hdr
    by (simp add: untar_entry_header[OF len])
qed

subsection \<open>The materializer on the example paths\<close>

lemma header_buffer:
  assumes "length name < 100"
  shows "ustar_header name mode sz chksum typeflag @ [0, 0] =
         name @ 0 # (replicate (99 - length name) 0 @ mode @ replicate 16 0 @ sz @ replicate 12 0 @
           chksum @ typeflag # replicate 355 0 @ [0, 0])"
proof -
  have "replicate (100 - length name) (0::byte) = 0 # replicate (99 - length name) 0"
    using assms by (cases "100 - length name") (simp_all add: Suc_diff_le)
  then show ?thesis by (simp add: ustar_header_def)
qed

lemma create_dir_nested:
  assumes "fs w = Map.empty"
  shows "create_dir (bytes ''a/b/'' @ 0 # q) mode w =
     Some (bytes ''a/b'' @ 0 # 0 # q,
       w\<lparr>fs := [bytes ''a'' \<mapsto> Dir 493, bytes ''a/b'' \<mapsto> Dir mode],
         trace := trace w @ [Ev_mkdir (bytes ''a/b'') mode False, Ev_mkdir (bytes ''a'') 493 True,
                 Ev_mkdir (bytes ''a/b'') mode True]\<rparr>)"
proof -
  let ?w1 = "log (Ev_mkdir (bytes ''a/b'') mode False) w"
  have inner: "create_dir (bytes ''a'' @ 0 # bytes ''b'' @ 0 # 0 # q) 493 ?w1 =
      Some (bytes ''a'' @ 0 # bytes ''b'' @ 0 # 0 # q,
            log (Ev_mkdir (bytes ''a'') 493 True) (?w1\<lparr>fs := [bytes ''a'' \<mapsto> Dir 493]\<rparr>))"
    using assms
    by (subst create_dir.simps)
       (simp add: bytes_def strlen_def cstr_def strip_trailing_def mkdir_def parent_ok_def
          parent_def log_def)
  show ?thesis
    using assms
    by (subst create_dir.simps)
       (simp add: bytes_def strlen_def cstr_def strip_trailing_def mkdir_def parent_ok_def
          parent_def strrchr_def inner[unfolded bytes_def, simplified];
        simp add: log_def)
qed

lemma create_dir_double_slash:
  assumes "fs w = Map.empty"
  shows "create_dir (bytes ''a//b'' @ 0 # q) mode w =
     Some (bytes ''a'' @ 0 # bytes ''/b'' @ 0 # q,
       w\<lparr>fs := [bytes ''a'' \<mapsto> Dir 493],
         trace := trace w @ [Ev_mkdir (bytes ''a//b'') mode False, Ev_mkdir (bytes ''a'') 493 True,
                 Ev_mkdir (bytes ''a'') mode False,
                 Ev_print Stderr (Text ''Could not create directory ''),
                 Ev_print Stderr (Name (bytes ''a'')), Ev_print Stderr newline]\<rparr>)"
proof -
  let ?w1 = "log (Ev_mkdir (bytes ''a//b'') mode False) w"
  have inner: "create_dir (bytes ''a/'' @ 0 # bytes ''b'' @ 0 # q) 493 ?w1 =
      Some (bytes ''a'' @ 0 # 0 # bytes ''b'' @ 0 # q,
            log (Ev_mkdir (bytes ''a'') 493 True) (?w1\<lparr>fs := [bytes ''a'' \<mapsto> Dir 493]\<rparr>))"
    using assms
    by (subst create_dir.simps)
       (simp add: bytes_def strlen_def cstr_def strip_trailing_def mkdir_def parent_ok_def
          parent_def log_def)
  show ?thesis
    using assms
    by (subst create_dir.simps)
       (simp add: bytes_def strlen_def cstr_def strip_trailing_def mkdir_def parent_ok_def
          parent_def strrchr_def inner[unfolded bytes_def, simplified];
        simp add: log_def report_failure_def fputs_def cstr_def)
qed


lemma create_file_nested:
  assumes "fs w = Map.empty"
  shows "create_file (bytes ''d/f.txt'' @ 0 # q) mode w =
     Some (Some (next_handle w), bytes ''d/f.txt'' @ 0 # q,
       w\<lparr>fs := [bytes ''d'' \<mapsto> Dir 493, bytes ''d/f.txt'' \<mapsto> File []],
         handles := (next_handle w, bytes ''d/f.txt'') # handles w,
         next_handle := Suc (next_handle w),
         trace := trace w @ [Ev_fopen (bytes ''d/f.txt'') None, Ev_mkdir (bytes ''d'') 493 True,
                 Ev_fopen (bytes ''d/f.txt'') (Some (next_handle w))]\<rparr>)"
proof -
  let ?w1 = "log (Ev_fopen (bytes ''d/f.txt'') None) w"
  have inner: "create_dir (bytes ''d'' @ 0 # bytes ''f.txt'' @ 0 # q) 493 ?w1 =
      Some (bytes ''d'' @ 0 # bytes ''f.txt'' @ 0 # q,
            log (Ev_mkdir (bytes ''d'') 493 True) (?w1\<lparr>fs := [bytes ''d'' \<mapsto> Dir 493]\<rparr>))"
    using assms
    by (subst create_dir.simps)
       (simp add: bytes_def strlen_def cstr_def strip_trailing_def mkdir_def parent_ok_def
          parent_def log_def)
  show ?thesis
    using assms
    by (simp add: create_file_def bytes_def cstr_def fopen_w_def parent_ok_def
          parent_def strrchr_def inner[unfolded bytes_def, simplified];
        simp add: log_def)
qed

lemma create_file_double_slash:
  assumes "fs w = [bytes ''a'' \<mapsto> File c]"
  shows "create_file (bytes ''a//c.txt'' @ 0 # q) mode w =
     Some (Some (next_handle w), bytes ''a'' @ 0 # bytes ''/c.txt'' @ 0 # q,
       w\<lparr>fs := [bytes ''a'' \<mapsto> File []],
         handles := (next_handle w, bytes ''a'') # handles w,
         next_handle := Suc (next_handle w),
         trace := trace w @ [Ev_fopen (bytes ''a//c.txt'') None, Ev_mkdir (bytes ''a'') 493 False,
                 Ev_print Stderr (Text ''Could not create directory ''),
                 Ev_print Stderr (Name (bytes ''a'')), Ev_print Stderr newline,
                 Ev_fopen (bytes ''a'') (Some (next_handle w))]\<rparr>)"
proof -
  let ?w1 = "log (Ev_fopen (bytes ''a//c.txt'') None) w"
  have inner: "create_dir (bytes ''a/'' @ 0 # bytes ''c.txt'' @ 0 # q) 493 ?w1 =
      Some (bytes ''a'' @ 0 # 0 # bytes ''c.txt'' @ 0 # q,
            report_failure (bytes ''a'' @ 0 # 0 # bytes ''c.txt'' @ 0 # q)
              (log (Ev_mkdir (bytes ''a'') 493 False) ?w1))"
    using assms
    by (subst create_dir.simps)
       (simp add: bytes_def strlen_def cstr_def strip_trailing_def mkdir_def parent_ok_def
          parent_def log_def strrchr_def)
  show ?thesis
    using assms
    by (simp add: create_file_def bytes_def cstr_def fopen_w_def parent_ok_def
          parent_def strrchr_def inner[unfolded bytes_def, simplified];
        simp add: log_def report_failure_def fputs_def cstr_def)
qed

subsection \<open>The example entries\<close>

lemmas example_headers =
  long_file_header_def long_dir_header_def unnamed_dir_header_def absolute_dir_header_def
  double_dir_header_def double_file_header_def nested_file_header_def nested_dir_header_def
  full_dir_header_def

lemma example_lengths:
  "length long_file_header = 512" "length long_dir_header = 512"
  "length unnamed_dir_header = 512" "length absolute_dir_header = 512"
  "length double_dir_header = 512" "length double_file_header = 512"
  "length nested_file_header = 512" "length nested_dir_header = 512"
  "length full_dir_header = 512"
  by (simp_all add: example_headers ustar_header_def bytes_def)

lemma long_file_cksum: "verify_checksum long_file_header"
  using example_lengths(1)
  by (simp add: verify_checksum_def cksum_loop_fields)
     (simp add: long_file_header_def ustar_header_def bytes_def parseoct_def sum_list_replicate)


lemma unnamed_dir_cksum: "verify_checksum unnamed_dir_header"
  using example_lengths(3)
  by (simp add: verify_checksum_def cksum_loop_fields)
     (simp add: unnamed_dir_header_def ustar_header_def bytes_def parseoct_def sum_list_replicate)


lemma double_dir_cksum: "verify_checksum double_dir_header"
  using example_lengths(5)
  by (simp add: verify_checksum_def cksum_loop_fields)
     (simp add: double_dir_header_def ustar_header_def bytes_def parseoct_def sum_list_replicate)

lemma double_file_cksum: "verify_checksum double_file_header"
  using example_lengths(6)
  by (simp add: verify_checksum_def cksum_loop_fields)
     (simp add: double_file_header_def ustar_header_def bytes_def parseoct_def sum_list_replicate)

lemma nested_file_cksum: "verify_checksum nested_file_header"
  using example_lengths(7)
  by (simp add: verify_checksum_def cksum_loop_fields)
     (simp add: nested_file_header_def ustar_header_def bytes_def parseoct_def sum_list_replicate)



lemma example_flags:
  "long_file_header ! 156 = 0x30" "long_dir_header ! 156 = 0x35"
  "unnamed_dir_header ! 156 = 0x35" "absolute_dir_header ! 156 = 0x35"
  "double_dir_header ! 156 = 0x35" "double_file_header ! 156 = 0x30"
  "nested_file_header ! 156 = 0x30" "nested_dir_header ! 156 = 0x35"
  "full_dir_header ! 156 = 0x35"
  by (simp_all add: example_headers ustar_header_def bytes_def nth_append)

lemma example_modes:
  "parseoct (drop 100 long_file_header) 8 = 420" "parseoct (drop 100 long_dir_header) 8 = 448"
  "parseoct (drop 100 unnamed_dir_header) 8 = 493" "parseoct (drop 100 absolute_dir_header) 8 = 493"
  "parseoct (drop 100 double_dir_header) 8 = 493" "parseoct (drop 100 double_file_header) 8 = 420"
  "parseoct (drop 100 nested_file_header) 8 = 420" "parseoct (drop 100 nested_dir_header) 8 = 448"
  "parseoct (drop 100 full_dir_header) 8 = 448"
  by (simp_all add: example_headers ustar_header_def bytes_def parseoct_def)

lemma example_sizes:
  "parseoct (drop 124 long_file_header) 12 = 0" "parseoct (drop 124 long_dir_header) 12 = 0"
  "parseoct (drop 124 unnamed_dir_header) 12 = 0" "parseoct (drop 124 absolute_dir_header) 12 = 0"
  "parseoct (drop 124 double_dir_header) 12 = 0" "parseoct (drop 124 double_file_header) 12 = 0"
  "parseoct (drop 124 nested_file_header) 12 = 0" "parseoct (drop 124 nested_dir_header) 12 = 1000"
  "parseoct (drop 124 full_dir_header) 12 = 0"
  by (simp_all add: example_headers ustar_header_def bytes_def parseoct_def)

lemma example_names:
  "name_field long_file_header = replicate 100 0x78"
  "name_field long_dir_header = replicate 99 0x78 @ [0x2F]"
  "name_field unnamed_dir_header = []"
  "name_field absolute_dir_header = bytes ''/x''"
  "name_field double_dir_header = bytes ''a//b''"
  "name_field double_file_header = bytes ''a//c.txt''"
  "name_field nested_file_header = bytes ''d/f.txt''"
  "name_field nested_dir_header = bytes ''a/b/''"
  "name_field full_dir_header = replicate 100 0x78"
  by (simp_all add: example_headers ustar_header_def bytes_def name_field_def cstr_def
      takeWhile_replicate)

lemma example_strings:
  "cstr long_file_header = replicate 100 0x78 @ bytes ''0000644''"
  "cstr long_dir_header = replicate 99 0x78 @ bytes ''/0000700''"
  "cstr unnamed_dir_header = []"
  "cstr full_dir_header = replicate 100 0x78 @ bytes ''0000700''"
  by (simp_all add: example_headers ustar_header_def bytes_def cstr_def takeWhile_replicate_append)



lemma untar_entry_empty_file:
  assumes len: "512 \<le> length (stream w)"
    and hdr: "hdr = take 512 (stream w)"
    and ck: "verify_checksum hdr"
    and flag: "hdr ! 156 \<notin> {0x31, 0x32, 0x33, 0x34, 0x35, 0x36}"
    and sz: "parseoct (drop 124 hdr) 12 = 0"
    and cf: "create_file (hdr @ [0, 0]) (parseoct (drop 100 hdr) 8)
               (entry_world '' Extracting file '' hdr w) = Some (f', buff', w')"
  shows "untar_entry path None w = (None, None, case f' of None \<Rightarrow> w' | Some h \<Rightarrow> fclose h w')"
proof -
  have l: "length hdr = 512" using len hdr by simp
  have m: "parseoct (drop 100 (hdr @ [0, 0])) 8 = parseoct (drop 100 hdr) 8"
    using l parseoct_prefix[of 8 "drop 100 hdr" "[0, 0]"] by simp
  have f: "(hdr @ [0, 0]) ! 156 \<notin> {0x31, 0x32, 0x33, 0x34, 0x35, 0x36}"
    using flag l by (simp add: nth_append)
  have d: "dispatch (hdr @ [0, 0]) (parseoct (drop 124 hdr) 12) None
             (log (Ev_fread 512) (w\<lparr>stream := drop 512 (stream w)\<rparr>)) =
           Some (0, f', buff', w')"
    unfolding dispatch_file[OF f] m
    using cf sz by (simp add: entry_world_def)
  show ?thesis
    using ck d unfolding hdr
    by (simp add: untar_entry_header[OF len] split: option.splits)
qed

text \<open>The worlds in which the entries of the examples are dispatched.\<close>

lemma one_entry_world:
  assumes "length hdr = 512"
  shows "512 \<le> length (stream ((initial_world (hdr @ replicate 512 0))\<lparr>fs := m\<rparr>))"
    and "hdr = take 512 (stream ((initial_world (hdr @ replicate 512 0))\<lparr>fs := m\<rparr>))"
    and "entry_world a hdr ((initial_world (hdr @ replicate 512 0))\<lparr>fs := m\<rparr>) =
         \<lparr>stream = replicate 512 0, fs = m, handles = [], next_handle = 0, wlimit = [],
          trace = [Ev_fread 512, Ev_print Stdout (Text a), Ev_print Stdout (Name (cstr hdr)),
                   Ev_print Stdout newline]\<rparr>"
  using assms by (simp_all add: initial_world_def entry_world_def log_def puts_def fputs_def)

lemma one_entry_sub:
  "one_entry Map.empty sub_header =
     (None, None,
      \<lparr>stream = replicate 512 0, fs = [bytes ''sub'' \<mapsto> Dir 493], handles = [], next_handle = 0,
       wlimit = [],
       trace = [Ev_fread 512, Ev_print Stdout (Text '' Extracting dir ''),
                Ev_print Stdout (Name (bytes ''sub/'')), Ev_print Stdout newline,
                Ev_mkdir (bytes ''sub'') 493 True]\<rparr>)"
proof -
  note ow = one_entry_world[OF sub_length, where m = Map.empty]
  have nz: "strlen (sub_header @ [0, 0]) \<noteq> 0"
    by (simp add: strlen_def sub_name) (simp add: bytes_def)
  have ss: "strip_slash (cstr (sub_header @ [0, 0])) = bytes ''sub''"
    by (simp add: sub_name strip_slash_def bytes_def)
  have cd: "create_dir (sub_header @ [0, 0]) (parseoct (drop 100 sub_header) 8)
           (entry_world '' Extracting dir '' sub_header
              ((initial_world (sub_header @ replicate 512 0))\<lparr>fs := Map.empty\<rparr>)) =
     Some (strip_trailing (sub_header @ [0, 0]),
       \<lparr>stream = replicate 512 0, fs = [bytes ''sub'' \<mapsto> Dir 493], handles = [], next_handle = 0,
       wlimit = [],
       trace = [Ev_fread 512, Ev_print Stdout (Text '' Extracting dir ''),
                Ev_print Stdout (Name (bytes ''sub/'')), Ev_print Stdout newline,
                Ev_mkdir (bytes ''sub'') 493 True]\<rparr>)"
    unfolding sub_fields ow(3)
    by (subst create_dir_direct[OF nz ss[symmetric]])
       (simp_all add: parent_ok_def parent_def bytes_def log_def sub_name)
  show ?thesis
    unfolding one_entry_def
    by (rule untar_entry_directory[OF ow(1,2) sub_cksum sub_fields(3) cd])
qed





lemma one_entry_double_dir:
  "one_entry Map.empty double_dir_header =
     (None, None,
      \<lparr>stream = replicate 512 0, fs = [bytes ''a'' \<mapsto> Dir 493], handles = [], next_handle = 0,
       wlimit = [],
       trace = [Ev_fread 512, Ev_print Stdout (Text '' Extracting dir ''),
                Ev_print Stdout (Name (bytes ''a//b'')), Ev_print Stdout newline,
                Ev_mkdir (bytes ''a//b'') 493 False, Ev_mkdir (bytes ''a'') 493 True,
                Ev_mkdir (bytes ''a'') 493 False,
                Ev_print Stderr (Text ''Could not create directory ''),
                Ev_print Stderr (Name (bytes ''a'')), Ev_print Stderr newline]\<rparr>)"
proof -
  note ow = one_entry_world[OF example_lengths(5), where m = Map.empty]
  have "length (bytes ''a//b'') < 100" by (simp add: bytes_def)
  from header_buffer[OF this] obtain q where b: "double_dir_header @ [0, 0] = bytes ''a//b'' @ 0 # q"
    unfolding double_dir_header_def by blast
  have n: "cstr double_dir_header = bytes ''a//b''"
    using b cstr_terminated[of "bytes ''a//b''" q] cstr_buffer[of double_dir_header]
    by (simp add: bytes_def cstr_def)
  have cd: "create_dir (double_dir_header @ [0, 0]) (parseoct (drop 100 double_dir_header) 8)
           (entry_world '' Extracting dir '' double_dir_header
              ((initial_world (double_dir_header @ replicate 512 0))\<lparr>fs := Map.empty\<rparr>)) =
     Some (bytes ''a'' @ 0 # bytes ''/b'' @ 0 # q,
      \<lparr>stream = replicate 512 0, fs = [bytes ''a'' \<mapsto> Dir 493], handles = [], next_handle = 0,
       wlimit = [],
       trace = [Ev_fread 512, Ev_print Stdout (Text '' Extracting dir ''),
                Ev_print Stdout (Name (bytes ''a//b'')), Ev_print Stdout newline,
                Ev_mkdir (bytes ''a//b'') 493 False, Ev_mkdir (bytes ''a'') 493 True,
                Ev_mkdir (bytes ''a'') 493 False,
                Ev_print Stderr (Text ''Could not create directory ''),
                Ev_print Stderr (Name (bytes ''a'')), Ev_print Stderr newline]\<rparr>)"
    unfolding ow(3) b example_modes n
    by (subst create_dir_double_slash) simp_all
  show ?thesis
    unfolding one_entry_def
    by (rule untar_entry_directory[OF ow(1,2) double_dir_cksum example_flags(5) cd])
qed

lemma one_entry_unnamed: "fst (one_entry Map.empty unnamed_dir_header) = Some Undefined_behaviour"
proof -
  note ow = one_entry_world[OF example_lengths(3), where m = Map.empty]
  have "strlen (unnamed_dir_header @ [0, 0]) = 0"
    by (simp add: strlen_def example_strings)
  then have cd: "create_dir (unnamed_dir_header @ [0, 0]) mode w = None" for mode w
    by (subst create_dir.simps) simp
  show ?thesis
    unfolding one_entry_def
    by (rule untar_entry_undefined[OF ow(1,2) unnamed_dir_cksum example_flags(3) cd])
qed




lemma one_entry_long_file:
  "one_entry Map.empty long_file_header =
     (None, None,
      \<lparr>stream = replicate 512 0, fs = [replicate 100 0x78 @ bytes ''0000644'' \<mapsto> File []],
       handles = [], next_handle = 1, wlimit = [],
       trace = [Ev_fread 512, Ev_print Stdout (Text '' Extracting file ''),
                Ev_print Stdout (Name (replicate 100 0x78 @ bytes ''0000644'')),
                Ev_print Stdout newline,
                Ev_fopen (replicate 100 0x78 @ bytes ''0000644'') (Some 0), Ev_fclose 0]\<rparr>)"
proof -
  let ?p = "replicate 100 0x78 @ bytes ''0000644''"
  let ?w = "(initial_world (long_file_header @ replicate 512 0))\<lparr>fs := Map.empty\<rparr>"
  let ?ew = "entry_world '' Extracting file '' long_file_header ?w"
  note ow = one_entry_world[OF example_lengths(1), where m = Map.empty]
  have f: "long_file_header ! 156 \<notin> {0x31, 0x32, 0x33, 0x34, 0x35, 0x36}"
    by (simp add: example_flags)
  have fo: "fopen_w (cstr (long_file_header @ [0, 0])) ?ew =
      (Some 0, log (Ev_fopen ?p (Some 0)) (?ew\<lparr>fs := [?p \<mapsto> File []], handles := [(0, ?p)],
         next_handle := 1\<rparr>))"
    unfolding ow(3)
    by (simp add: example_strings fopen_w_def parent_ok_def parent_def) (simp add: bytes_def)
  note cf = create_file_direct[OF fo, of "parseoct (drop 100 long_file_header) 8"]
  show ?thesis
    unfolding one_entry_def
      untar_entry_empty_file[OF ow(1,2) long_file_cksum f example_sizes(1) cf]
    by (simp add: ow(3) fclose_def log_def example_strings)
qed

lemma one_entry_double_file:
  "one_entry [bytes ''a'' \<mapsto> File (bytes ''old'')] double_file_header =
     (None, None,
      \<lparr>stream = replicate 512 0, fs = [bytes ''a'' \<mapsto> File []],
       handles = [], next_handle = 1, wlimit = [],
       trace = [Ev_fread 512, Ev_print Stdout (Text '' Extracting file ''),
                Ev_print Stdout (Name (bytes ''a//c.txt'')), Ev_print Stdout newline,
                Ev_fopen (bytes ''a//c.txt'') None, Ev_mkdir (bytes ''a'') 493 False,
                Ev_print Stderr (Text ''Could not create directory ''),
                Ev_print Stderr (Name (bytes ''a'')), Ev_print Stderr newline,
                Ev_fopen (bytes ''a'') (Some 0), Ev_fclose 0]\<rparr>)"
proof -
  note ow = one_entry_world[OF example_lengths(6), where m = "[bytes ''a'' \<mapsto> File (bytes ''old'')]"]
  have f: "double_file_header ! 156 \<notin> {0x31, 0x32, 0x33, 0x34, 0x35, 0x36}"
    by (simp add: example_flags)
  have "length (bytes ''a//c.txt'') < 100" by (simp add: bytes_def)
  from header_buffer[OF this] obtain q where
    b: "double_file_header @ [0, 0] = bytes ''a//c.txt'' @ 0 # q"
    unfolding double_file_header_def by blast
  have n: "cstr double_file_header = bytes ''a//c.txt''"
    using b cstr_terminated[of "bytes ''a//c.txt''" q] cstr_buffer[of double_file_header]
    by (simp add: bytes_def cstr_def)
  have cf: "create_file (double_file_header @ [0, 0]) (parseoct (drop 100 double_file_header) 8)
           (entry_world '' Extracting file '' double_file_header
              ((initial_world (double_file_header @ replicate 512 0))
                 \<lparr>fs := [bytes ''a'' \<mapsto> File (bytes ''old'')]\<rparr>)) =
     Some (Some 0, bytes ''a'' @ 0 # bytes ''/c.txt'' @ 0 # q,
      \<lparr>stream = replicate 512 0, fs = [bytes ''a'' \<mapsto> File []],
       handles = [(0, bytes ''a'')], next_handle = 1, wlimit = [],
       trace = [Ev_fread 512, Ev_print Stdout (Text '' Extracting file ''),
                Ev_print Stdout (Name (bytes ''a//c.txt'')), Ev_print Stdout newline,
                Ev_fopen (bytes ''a//c.txt'') None, Ev_mkdir (bytes ''a'') 493 False,
                Ev_print Stderr (Text ''Could not create directory ''),
                Ev_print Stderr (Name (bytes ''a'')), Ev_print Stderr newline,
                Ev_fopen (bytes ''a'') (Some 0)]\<rparr>)"
    unfolding ow(3) b example_modes n
    by (subst create_file_double_slash[where c = "bytes ''old''"]) simp_all
  show ?thesis
    unfolding one_entry_def
      untar_entry_empty_file[OF ow(1,2) double_file_cksum f example_sizes(6) cf]
    by (simp add: fclose_def log_def)
qed

section \<open>The extraction engine: one file\<close>

text \<open>
  Claim C1, as amended. Let the stream hold one header block that \<^verbatim>\<open>verify_checksum\<close>
  accepts, with a regular-file type flag and a size field that \<^verbatim>\<open>parseoct\<close> reads as the
  length of the payload (so the length is below \<open>2 ^ 31\<close>), then the payload, zeros up to
  the next multiple of 512, and a zero block. If \<^verbatim>\<open>create_file\<close> returns a handle and no
  write is cut short, \<^verbatim>\<open>untar\<close> reports the end of the archive, the regular files of the
  file system are those it had before and one more, which holds exactly the payload, and
  the handle is closed. The payload may be empty or a multiple of 512 long.
\<close>

theorem single_file_roundtrip:
  assumes "length hdr = 512"
    and "verify_checksum hdr"
    and "hdr ! 156 = 0x30 \<or> hdr ! 156 = 0"
    and "sint (parseoct (drop 124 hdr) 12) = int (length payload)"
    and "w = puts (Name path) (fputs (Text ''Extracting from '') Stdout w0)"
    and "stream w0 =
           hdr @ payload @ replicate ((512 - length payload mod 512) mod 512) 0 @
           replicate 512 0 @ rest"
    and "wlimit w0 = []"
    and "create_file (hdr @ [0, 0]) (parseoct (drop 100 hdr) 8)
           (entry_world '' Extracting file '' hdr w) = Some (Some h, buff', w1)"
  shows "\<exists>p w'. untar path w0 = (End_of_archive, w') \<and>
           files_of (fs w') = (files_of (fs w0))(p \<mapsto> payload) \<and>
           stream w' = rest \<and> map_of (handles w') h = None"
proof -
  define s where "s = length payload"
  define pad where "pad = (512 - s mod 512) mod 512"
  have sw: "stream w = hdr @ payload @ replicate pad 0 @ replicate 512 0 @ rest"
    and lw: "wlimit w = []" and fw: "fs w = fs w0"
    using assms(5,6,7) by (simp_all add: s_def pad_def)
  have len: "512 \<le> length (stream w)" and hd: "take 512 (stream w) = hdr"
    and dr: "drop 512 (stream w) = payload @ replicate pad 0 @ replicate 512 0 @ rest"
    using assms(1) by (simp_all add: sw)
  have ck: "verify_checksum (take 512 (stream w))" using assms(2) by (simp add: hd)
  have f: "(hdr @ [0, 0]) ! 156 = 0x30 \<or> (hdr @ [0, 0]) ! 156 = 0"
    using assms(1,3) by (simp add: nth_append)
  have m: "parseoct (drop 100 (hdr @ [0, 0])) 8 = parseoct (drop 100 hdr) 8"
    using assms(1) parseoct_prefix[of 8 "drop 100 hdr" "[0, 0]"] by simp
  have d: "dispatch (take 512 (stream w) @ [0, 0]) (parseoct (drop 124 (take 512 (stream w))) 12) None
             (log (Ev_fread 512) (w\<lparr>stream := drop 512 (stream w)\<rparr>)) =
           Some (parseoct (drop 124 hdr) 12, Some h, buff', w1)"
    unfolding hd dispatch_regular[OF f] m
    using assms(8) by (simp add: entry_world_def)
  from create_file_opened[OF assms(8)] obtain p where
    p: "map_of (handles w1) h = Some p" "fs w1 p = Some (File [])"
       "files_of (fs w1) = (files_of (fs w0))(p \<mapsto> [])"
    by (auto simp: entry_world_def fw)
  have w1: "stream w1 = payload @ replicate pad 0 @ replicate 512 0 @ rest" "wlimit w1 = []"
    using create_file_frame[OF assms(8)] by (simp_all add: entry_world_def dr lw)
  have sz: "nat (sint (parseoct (drop 124 hdr) 12)) = s"
    using assms(4) by (simp add: s_def)
  have pl: "s + pad = 512 * blocks s"
    unfolding pad_def by (rule padded_length)
  have len1: "512 * blocks (nat (sint (parseoct (drop 124 hdr) 12))) \<le> length (stream w1)"
    unfolding sz w1 using pl by (simp add: s_def)
  from payload_loop_write[OF w1(2) p(1,2) len1, of path buff'] obtain w2 where
    r: "payload_loop path (parseoct (drop 124 hdr) 12) (Some h) buff' w1 = (False, Some h, w2)"
    and f2: "fs w2 = (fs w1)(p \<mapsto> File ([] @ take s (stream w1)))"
    and st2: "stream w2 = drop (512 * blocks s) (stream w1)"
    and h2: "handles w2 = handles w1"
    unfolding sz by blast
  have e: "untar_entry path None w = (None, None, fclose h w2)"
    using d r by (simp add: untar_entry_header[OF len ck])
  have st3: "stream w2 = replicate 512 0 @ rest"
    using st2 pl[symmetric] by (simp add: w1 s_def)
  have "untar_loop path None w = untar_loop path None (fclose h w2)"
    using e by (subst untar_loop.simps) simp
  also have "\<dots> = (End_of_archive, None,
      puts (Name path) (fputs (Text ''End of '') Stdout
        (log (Ev_fread 512) ((fclose h w2)\<lparr>stream := drop 512 (stream (fclose h w2))\<rparr>))))"
    by (rule untar_loop_zero_block) (simp add: st3)
  finally have u: "untar path w0 = (End_of_archive,
      puts (Name path) (fputs (Text ''End of '') Stdout
        (log (Ev_fread 512) ((fclose h w2)\<lparr>stream := drop 512 (stream (fclose h w2))\<rparr>))))"
    by (simp add: untar_def assms(5)[symmetric])
  have "files_of (fs w2) = (files_of (fs w0))(p \<mapsto> payload)"
    using f2 p(3) by (simp add: w1 s_def)
  then show ?thesis
    unfolding u using st3
    by (intro exI[of _ p]) (simp add: fclose_def log_def map_of_closed)
qed

text \<open>The archive of \<open>a.txt\<close> with \<open>hello\<close>, and the archive of an empty \<open>a.txt\<close>.\<close>

theorem single_file_roundtrip_witness:
  "fst (untar [] (initial_world hello_archive)) = End_of_archive \<and>
   (\<exists>p. files_of (fs (snd (untar [] (initial_world hello_archive)))) = [p \<mapsto> bytes ''hello'']) \<and>
   fst (untar [] (initial_world (empty_header @ replicate 512 0))) = End_of_archive \<and>
   (\<exists>p. files_of (fs (snd (untar [] (initial_world (empty_header @ replicate 512 0))))) = [p \<mapsto> []])"
proof -
  define w :: "byte list \<Rightarrow> world" where
    "w = (\<lambda>s. puts (Name []) (fputs (Text ''Extracting from '') Stdout (initial_world s)))"
  have c1: "\<exists>g b v. create_file (hello_header @ [0, 0]) (parseoct (drop 100 hello_header) 8)
           (entry_world '' Extracting file '' hello_header (w hello_archive)) = Some (Some g, b, v)"
    by (subst create_file_fresh)
       (simp_all add: hello_name entry_world_def w_def initial_world_def)
  have c2: "\<exists>g b v. create_file (empty_header @ [0, 0]) (parseoct (drop 100 empty_header) 8)
           (entry_world '' Extracting file '' empty_header (w (empty_header @ replicate 512 0))) =
           Some (Some g, b, v)"
    by (subst create_file_fresh)
       (simp_all add: empty_header_facts entry_world_def w_def initial_world_def)
  from c1 obtain g1 b1 v1 where
    d1: "create_file (hello_header @ [0, 0]) (parseoct (drop 100 hello_header) 8)
           (entry_world '' Extracting file '' hello_header (w hello_archive)) = Some (Some g1, b1, v1)"
    by blast
  from c2 obtain g2 b2 v2 where
    d2: "create_file (empty_header @ [0, 0]) (parseoct (drop 100 empty_header) 8)
           (entry_world '' Extracting file '' empty_header (w (empty_header @ replicate 512 0))) =
           Some (Some g2, b2, v2)"
    by blast
  have a1: "\<exists>p w'. untar [] (initial_world hello_archive) = (End_of_archive, w') \<and>
           files_of (fs w') = (files_of (fs (initial_world hello_archive)))(p \<mapsto> bytes ''hello'') \<and>
           stream w' = [] \<and> map_of (handles w') g1 = None"
    by (rule single_file_roundtrip[where hdr = hello_header and w = "w hello_archive"
          and buff' = b1 and ?w1.0 = v1, OF hello_length hello_cksum _ _ _ _ _ d1])
       (simp_all add: hello_flag hello_size w_def initial_world_def hello_archive_def bytes_def)
  have a2: "\<exists>p w'. untar [] (initial_world (empty_header @ replicate 512 0)) = (End_of_archive, w') \<and>
           files_of (fs w') = (files_of (fs (initial_world (empty_header @ replicate 512 0))))(p \<mapsto> []) \<and>
           stream w' = [] \<and> map_of (handles w') g2 = None"
    by (rule single_file_roundtrip[where hdr = empty_header
          and w = "w (empty_header @ replicate 512 0)"
          and buff' = b2 and ?w1.0 = v2, OF empty_header_facts(1,2) _ _ _ _ _ d2])
       (simp_all add: empty_header_facts w_def initial_world_def)
  have fe: "files_of (fs (initial_world s)) = Map.empty" for s
    by (simp add: initial_world_def files_of_def)
  from a1 a2 show ?thesis
    by (auto simp: fe)
qed

text \<open>
  A well-formed archive of one file of \<open>2 ^ 31\<close> zero bytes. The size read into the \<^verbatim>\<open>int\<close>
  is negative, no payload block is read, the first block of the payload is taken for the
  end of the archive, and the file is left empty.
\<close>

theorem single_file_two_gib_counterexample:
  "length big_header = 512 \<and> verify_checksum big_header \<and> big_header ! 156 = 0x30 \<and>
   octal_value (take 11 (drop 124 big_header)) = 2147483648 \<and>
   length (replicate 2147483648 (0 :: byte)) mod 512 = 0 \<and>
   fst (untar [] (initial_world (big_header @ replicate 2147483648 0 @ replicate 512 0))) =
     End_of_archive \<and>
   fs (snd (untar [] (initial_world (big_header @ replicate 2147483648 0 @ replicate 512 0))))
     (bytes ''a.txt'') = Some (File []) \<and>
   stream (snd (untar [] (initial_world (big_header @ replicate 2147483648 0 @ replicate 512 0)))) =
     replicate 2147483136 0 @ replicate 512 0"
proof -
  define v where "v = puts (Name []) (fputs (Text ''Extracting from '') Stdout
      (initial_world (big_header @ replicate 2147483648 0 @ replicate 512 0)))"
  define v1 where "v1 = puts (Name (cstr (big_header @ [0, 0])))
      (fputs (Text '' Extracting file '') Stdout
         (log (Ev_fread 512) (v\<lparr>stream := drop 512 (stream v)\<rparr>)))"
  define v2 where "v2 = v1\<lparr>fs := [bytes ''a.txt'' \<mapsto> File []],
         handles := (next_handle v1, bytes ''a.txt'') # handles v1,
         next_handle := Suc (next_handle v1),
         trace := trace v1 @ [Ev_fopen (bytes ''a.txt'') (Some (next_handle v1))]\<rparr>"
  have sv: "stream v = big_header @ replicate 2147483648 0 @ replicate 512 0"
    by (simp add: v_def initial_world_def)
  have len: "512 \<le> length (stream v)" and hd: "take 512 (stream v) = big_header"
    by (simp_all add: sv big_header_facts)
  have ck: "verify_checksum (take 512 (stream v))" by (simp add: hd big_header_facts)
  have f: "(big_header @ [0, 0]) ! 156 = 0x30 \<or> (big_header @ [0, 0]) ! 156 = 0"
    using big_header_facts(1,3) by (simp add: nth_append)
  have cf: "create_file (big_header @ [0, 0]) (parseoct (drop 100 (big_header @ [0, 0])) 8) v1 =
      Some (Some (next_handle v1), big_header @ [0, 0], v2)"
    unfolding v2_def
    by (rule create_file_fresh) (simp_all add: big_header_facts v1_def v_def initial_world_def)
  have d: "dispatch (take 512 (stream v) @ [0, 0]) (parseoct (drop 124 (take 512 (stream v))) 12) None
             (log (Ev_fread 512) (v\<lparr>stream := drop 512 (stream v)\<rparr>)) =
           Some (0x80000000, Some (next_handle v1), big_header @ [0, 0], v2)"
    unfolding hd dispatch_regular[OF f] v1_def[symmetric] cf
    by (simp add: big_header_facts)
  have pl: "payload_loop [] 0x80000000 (Some (next_handle v1)) (big_header @ [0, 0]) v2 =
      (False, Some (next_handle v1), v2)"
    by (subst payload_loop.simps) (simp add: word_sless_alt)
  have e: "untar_entry [] None v = (None, None, fclose (next_handle v1) v2)"
    using d pl by (simp add: untar_entry_header[OF len ck])
  have st: "stream v2 = replicate 2147483648 0 @ replicate 512 0"
    "fs v2 = [bytes ''a.txt'' \<mapsto> File []]"
    by (simp_all add: v2_def v1_def sv big_header_facts)
  have "untar_loop [] None v = untar_loop [] None (fclose (next_handle v1) v2)"
    using e by (subst untar_loop.simps) simp
  also have "\<dots> = (End_of_archive, None,
      puts (Name []) (fputs (Text ''End of '') Stdout
        (log (Ev_fread 512) ((fclose (next_handle v1) v2)
           \<lparr>stream := drop 512 (stream (fclose (next_handle v1) v2))\<rparr>))))"
    by (rule untar_loop_zero_block) (simp add: st)
  finally have u: "untar [] (initial_world (big_header @ replicate 2147483648 0 @ replicate 512 0)) =
     (End_of_archive,
      puts (Name []) (fputs (Text ''End of '') Stdout
        (log (Ev_fread 512) ((fclose (next_handle v1) v2)
           \<lparr>stream := drop 512 (stream (fclose (next_handle v1) v2))\<rparr>))))"
    by (simp add: untar_def v_def[symmetric])
  have ov: "octal_value (take 11 (drop 124 big_header)) = 2147483648"
    by (simp add: big_header_def ustar_header_def bytes_def octal_value_def)
  show ?thesis
    unfolding u using ov by (simp add: big_header_facts st)
qed

section \<open>The checksum validator\<close>

text \<open>
  Claim C2 at a block with one byte above 127. The block holds the byte \<open>0x80\<close> at offset
  0, zeros elsewhere, and the checksum field \<open>00000600\<close>: octal 600 is 384, the sum of the
  unsigned bytes with the checksum field counted as eight spaces. \<^verbatim>\<open>verify_checksum\<close> adds
  the byte as the signed value -128, finds 128 and returns false.
\<close>

theorem verify_checksum_high_byte:
  "length high_byte_block = 512 \<and>
   unsigned_sum high_byte_block = 384 \<and>
   parseoct (drop 148 high_byte_block) 8 = 384 \<and>
   cksum_loop high_byte_block 0 0 = 128 \<and>
   \<not> verify_checksum high_byte_block"
proof -
  have l: "length high_byte_block = 512"
    by (simp add: high_byte_block_def)
  have u: "unsigned_sum high_byte_block = 384"
    by (simp add: high_byte_block_def unsigned_sum_def sum_list_replicate)
  have p: "parseoct (drop 148 high_byte_block) 8 = 384"
    by (simp add: high_byte_block_def parseoct_def)
  have c: "cksum_loop high_byte_block 0 0 = 128"
    using cksum_loop_fields[of high_byte_block] l
    by (simp add: high_byte_block_def sum_list_replicate)
  show ?thesis
    using l u p c by (simp add: verify_checksum_def)
qed

section \<open>The extraction engine: short read in a payload\<close>

text \<open>
  Claim C3 at an archive cut short inside a payload: the header of \<open>a.txt\<close> (five bytes
  declared) followed by three bytes. \<^verbatim>\<open>untar\<close> opens the file, meets the short read in the
  payload loop and returns; handle 0 is still in the table of open handles and the trace
  has no \<^verbatim>\<open>fclose\<close>.
\<close>

theorem short_read_leaves_handle_open:
  "fst (untar [] (initial_world (hello_header @ bytes ''hel''))) = Short_read \<and>
   handles (snd (untar [] (initial_world (hello_header @ bytes ''hel'')))) =
     [(0, bytes ''a.txt'')] \<and>
   trace (snd (untar [] (initial_world (hello_header @ bytes ''hel'')))) =
     [Ev_print Stdout (Text ''Extracting from ''), Ev_print Stdout (Name []),
      Ev_print Stdout newline, Ev_fread 512,
      Ev_print Stdout (Text '' Extracting file ''), Ev_print Stdout (Name (bytes ''a.txt'')),
      Ev_print Stdout newline, Ev_fopen (bytes ''a.txt'') (Some 0), Ev_fread 3,
      Ev_print Stderr (Text ''Short read on ''), Ev_print Stderr (Name []),
      Ev_print Stderr (Text '': Expected 512, got ''), Ev_print Stdout (Num 3),
      Ev_print Stdout newline]"
proof -
  define v where "v = puts (Name []) (fputs (Text ''Extracting from '') Stdout
      (initial_world (hello_header @ bytes ''hel'')))"
  have sv: "stream v = hello_header @ bytes ''hel''" "fs v = Map.empty" "next_handle v = 0"
    "handles v = []"
    by (simp_all add: v_def initial_world_def)
  have len: "512 \<le> length (stream v)" by (simp add: sv hello_length)
  have hd: "take 512 (stream v) = hello_header" by (simp add: sv hello_length)
  have ck: "verify_checksum (take 512 (stream v))" by (simp add: hd hello_cksum)
  have e: "untar_entry [] None v =
    (Some Short_read, Some 0,
      puts (Num 3)
        (fputs (Text '': Expected 512, got '') Stderr
           (fputs (Name []) Stderr
              (fputs (Text ''Short read on '') Stderr
                 (log (Ev_fread 3)
                    ((entry_world '' Extracting file '' hello_header v)
             \<lparr>fs := [bytes ''a.txt'' \<mapsto> File []],
              handles := [(0, bytes ''a.txt'')],
              next_handle := Suc 0,
              trace := trace (entry_world '' Extracting file '' hello_header v) @
                [Ev_fopen (bytes ''a.txt'') (Some 0)], stream := []\<rparr>))))))"
    unfolding untar_entry_header[OF len ck] hello_dispatch[OF hd sv(2)]
    by (simp add: sv payload_loop_short_read word_sless_alt entry_world_def hello_length bytes_def)
  have "untar_loop [] None v = (Short_read, Some 0,
      puts (Num 3)
        (fputs (Text '': Expected 512, got '') Stderr
           (fputs (Name []) Stderr
              (fputs (Text ''Short read on '') Stderr
                 (log (Ev_fread 3)
                    ((entry_world '' Extracting file '' hello_header v)
             \<lparr>fs := [bytes ''a.txt'' \<mapsto> File []],
              handles := [(0, bytes ''a.txt'')],
              next_handle := Suc 0,
              trace := trace (entry_world '' Extracting file '' hello_header v) @
                [Ev_fopen (bytes ''a.txt'') (Some 0)], stream := []\<rparr>))))))"
    by (subst untar_loop.simps) (simp add: e)
  then show ?thesis
    by (simp add: untar_def v_def[symmetric] entry_world_def hello_name)
       (simp add: v_def initial_world_def)
qed

section \<open>The header codec\<close>

text \<open>
  Claim C4, as amended. For a byte range of \<open>n\<close> octal digit characters whose base-8
  value is below \<open>2 ^ 31\<close>, \<^verbatim>\<open>parseoct\<close> returns that value; for a range of spaces and
  NUL bytes it returns 0.
\<close>

theorem parseoct_octal_value:
  "(list_all is_octal_digit (take n p) \<and> n \<le> length p \<and> octal_value (take n p) < 2 ^ 31
      \<longrightarrow> sint (parseoct p n) = int (octal_value (take n p))) \<and>
   (list_all (\<lambda>c. c = 0x20 \<or> c = 0) (take n p) \<and> n \<le> length p \<longrightarrow> parseoct p n = 0)"
proof (intro conjI impI)
  assume a: "list_all is_octal_digit (take n p) \<and> n \<le> length p \<and> octal_value (take n p) < 2 ^ 31"
  then have "parseoct p n = of_nat (octal_value (take n p))"
    using accum_digits_octal[of n p 0]
    by (simp add: parseoct_def skip_nondigits_digit octal_value_def)
  with a show "sint (parseoct p n) = int (octal_value (take n p))"
    by (simp only: sint_of_nat32)
next
  assume "list_all (\<lambda>c. c = 0x20 \<or> c = 0) (take n p) \<and> n \<le> length p"
  then show "parseoct p n = 0"
    by (simp add: parseoct_def skip_blank)
qed

theorem parseoct_octal_value_witness:
  "sint (parseoct [0x30, 0x30, 0x30, 0x30, 0x36, 0x34, 0x34, 0x37] 7) = 420 \<and>
   octal_value (take 7 [0x30, 0x30, 0x30, 0x30, 0x36, 0x34, 0x34, 0x37]) = 420 \<and>
   parseoct [0x20, 0, 0x20, 0, 0x31] 4 = 0"
  using parseoct_octal_value[of 7 "[0x30, 0x30, 0x30, 0x30, 0x36, 0x34, 0x34, 0x37]"]
    parseoct_octal_value[of 4 "[0x20, 0, 0x20, 0, 0x31]"]
  by (simp add: is_octal_digit_def octal_value_def)

text \<open>
  Eleven digits \<open>7\<close> have the base-8 value \<open>2 ^ 33 - 1\<close>; the 32-bit accumulator wraps
  around and \<^verbatim>\<open>parseoct\<close> returns -1.
\<close>

theorem parseoct_overflow_counterexample:
  "list_all is_octal_digit [0x37, 0x37, 0x37, 0x37, 0x37, 0x37, 0x37, 0x37, 0x37, 0x37, 0x37] \<and>
   octal_value [0x37, 0x37, 0x37, 0x37, 0x37, 0x37, 0x37, 0x37, 0x37, 0x37, 0x37] = 8589934591 \<and>
   sint (parseoct [0x37, 0x37, 0x37, 0x37, 0x37, 0x37, 0x37, 0x37, 0x37, 0x37, 0x37] 11) = - 1"
  by (simp add: is_octal_digit_def octal_value_def parseoct_def)

section \<open>The paths of the entries\<close>

text \<open>
  Claim C5, as amended. The entry is a directory (type flag \<open>5\<close>) or a regular file (every
  type flag other than \<open>1\<close> to \<open>6\<close>), its name field holds a NUL, and the dispatch returns.
  Then the first creation call is \<^verbatim>\<open>fopen\<close> on exactly the string of the name field for a
  regular file, and \<^verbatim>\<open>mkdir\<close> on that string without its trailing separator for a
  directory, which opens no file. When the name has no two adjacent separators, every
  \<^verbatim>\<open>fopen\<close> of a regular file is on the string of the name field, the retry after the
  parent bootstrap included, the handle that is returned is open on that string, and the
  \<^verbatim>\<open>mkdir\<close> calls are on leading directories of it; for a directory the last \<^verbatim>\<open>mkdir\<close> is
  on the stripped string again, and every \<^verbatim>\<open>mkdir\<close> is on it or on one of its leading
  directories. All these paths are functions of the first 100 bytes of the header alone.
\<close>

theorem creation_path:
  assumes "length hdr = 512"
    and "0 \<in> set (take 100 hdr)"
    and "dispatch (hdr @ [0, 0]) filesize f w = Some (filesize', f', buff', w')"
  shows "\<exists>es. trace w' = trace w @ es \<and>
           (hdr ! 156 = 0x35 \<longrightarrow>
              first_creation es = Some (strip_slash (name_field hdr)) \<and> fopen_paths es = [] \<and>
              (\<not> has_double_slash (name_field hdr) \<longrightarrow>
                 last (mkdir_paths es) = strip_slash (name_field hdr) \<and>
                 list_all (\<lambda>q. q = strip_slash (name_field hdr) \<or>
                               ancestor_of (strip_slash (name_field hdr)) q) (mkdir_paths es))) \<and>
           (hdr ! 156 \<notin> {0x31, 0x32, 0x33, 0x34, 0x35, 0x36} \<longrightarrow>
              first_creation es = Some (name_field hdr) \<and> fopen_paths es \<noteq> [] \<and>
              hd (fopen_paths es) = name_field hdr \<and>
              (\<not> has_double_slash (name_field hdr) \<longrightarrow>
                 list_all (\<lambda>q. q = name_field hdr) (fopen_paths es) \<and>
                 list_all (ancestor_of (name_field hdr)) (mkdir_paths es) \<and>
                 (\<forall>h. f' = Some h \<longrightarrow> map_of (handles w') h = Some (name_field hdr))))"
proof -
  have nm: "cstr (hdr @ [0, 0]) = name_field hdr"
    using name_field_cstr[OF assms(2)] by simp
  have nm': "cstr hdr = name_field hdr"
    by (rule name_field_cstr[OF assms(2)])
  let ?pr = "\<lambda>a. puts (Name (cstr (hdr @ [0, 0]))) (fputs (Text a) Stdout w)"
  have pr: "trace (?pr a) = trace w @ [Ev_print Stdout (Text a),
      Ev_print Stdout (Name (name_field hdr)), Ev_print Stdout newline]" for a
    by (simp add: puts_def fputs_def nm')
  consider (dir) "hdr ! 156 = 0x35" | (reg) "hdr ! 156 \<notin> {0x31, 0x32, 0x33, 0x34, 0x35, 0x36}"
    | (other) "hdr ! 156 \<in> {0x31, 0x32, 0x33, 0x34, 0x36}"
    by auto
  then show ?thesis
  proof cases
    case dir
    then have f: "(hdr @ [0, 0]) ! 156 = 0x35"
      using assms(1) by (simp add: nth_append)
    from assms(3) obtain b2 where
      cd: "create_dir (hdr @ [0, 0]) (parseoct (drop 100 (hdr @ [0, 0])) 8)
             (?pr '' Extracting dir '') = Some (b2, w')"
      unfolding dispatch_directory[OF f] by (auto split: option.splits)
    from create_dir_no_fopen[OF cd] obtain es where
      es: "trace w' = trace (?pr '' Extracting dir '') @ es" "fopen_paths es = []"
      by blast
    from create_dir_first_mkdir[OF cd] es(1) have
      first: "first_creation es = Some (strip_slash (name_field hdr))"
      unfolding nm by auto
    have clean: "last (mkdir_paths es) = strip_slash (name_field hdr) \<and>
        list_all (\<lambda>q. q = strip_slash (name_field hdr) \<or>
                      ancestor_of (strip_slash (name_field hdr)) q) (mkdir_paths es)"
      if "\<not> has_double_slash (name_field hdr)"
      using create_dir_clean[OF cd] that es(1) unfolding nm by auto
    let ?es = "[Ev_print Stdout (Text '' Extracting dir ''),
      Ev_print Stdout (Name (name_field hdr)), Ev_print Stdout newline] @ es"
    have "trace w' = trace w @ ?es"
      using es(1) pr by simp
    moreover have "first_creation ?es = Some (strip_slash (name_field hdr))"
      "fopen_paths ?es = []" "mkdir_paths ?es = mkdir_paths es"
      using first es(2) by simp_all
    ultimately show ?thesis
      using dir clean by (intro exI[of _ ?es]) simp
  next
    case reg
    then have f: "(hdr @ [0, 0]) ! 156 \<notin> {0x31, 0x32, 0x33, 0x34, 0x35, 0x36}"
      using assms(1) by (simp add: nth_append)
    from assms(3) obtain b2 where
      cf: "create_file (hdr @ [0, 0]) (parseoct (drop 100 (hdr @ [0, 0])) 8)
             (?pr '' Extracting file '') = Some (f', b2, w')"
      unfolding dispatch_file[OF f] by (auto split: option.splits)
    from create_file_first_fopen[OF cf] obtain r tl where
      es: "trace w' = trace (?pr '' Extracting file '') @ Ev_fopen (name_field hdr) r # tl"
      unfolding nm by blast
    let ?es = "[Ev_print Stdout (Text '' Extracting file ''),
      Ev_print Stdout (Name (name_field hdr)), Ev_print Stdout newline] @
      Ev_fopen (name_field hdr) r # tl"
    have clean: "list_all (\<lambda>q. q = name_field hdr) (fopen_paths ?es) \<and>
        list_all (ancestor_of (name_field hdr)) (mkdir_paths ?es) \<and>
        (\<forall>h. f' = Some h \<longrightarrow> map_of (handles w') h = Some (name_field hdr))"
      if "\<not> has_double_slash (name_field hdr)"
      using create_file_clean[OF cf] that es unfolding nm by auto
    have "trace w' = trace w @ ?es"
      using es pr by simp
    moreover have "first_creation ?es = Some (name_field hdr)"
      "fopen_paths ?es \<noteq> []" "hd (fopen_paths ?es) = name_field hdr"
      by simp_all
    ultimately show ?thesis
      using reg clean by (intro exI[of _ ?es]) simp
  next
    case other
    with assms(1,3) have "\<exists>es. trace w' = trace w @ es"
      by (auto simp: dispatch_def Let_def flag_tests nth_append puts_def fputs_def)
    with other show ?thesis by auto
  qed
qed

text \<open>
  The file \<open>d/f.txt\<close> and the directory \<open>a/b/\<close> in an empty working directory: both go
  through the parent bootstrap, and the retry is on the name.
\<close>

theorem creation_path_witness:
  "name_field nested_file_header = bytes ''d/f.txt'' \<and>
   (\<exists>buff'.
      dispatch (nested_file_header @ [0, 0]) 0 None (initial_world []) =
        Some (0, Some 0, buff',
          \<lparr>stream = [], fs = [bytes ''d'' \<mapsto> Dir 493, bytes ''d/f.txt'' \<mapsto> File []],
           handles = [(0, bytes ''d/f.txt'')], next_handle = 1, wlimit = [],
           trace = [Ev_print Stdout (Text '' Extracting file ''),
                    Ev_print Stdout (Name (bytes ''d/f.txt'')), Ev_print Stdout newline,
                    Ev_fopen (bytes ''d/f.txt'') None, Ev_mkdir (bytes ''d'') 493 True,
                    Ev_fopen (bytes ''d/f.txt'') (Some 0)]\<rparr>)) \<and>
   name_field nested_dir_header = bytes ''a/b/'' \<and>
   (\<exists>buff'.
      dispatch (nested_dir_header @ [0, 0]) 1000 None (initial_world []) =
        Some (0, None, buff',
          \<lparr>stream = [], fs = [bytes ''a'' \<mapsto> Dir 493, bytes ''a/b'' \<mapsto> Dir 448],
           handles = [], next_handle = 0, wlimit = [],
           trace = [Ev_print Stdout (Text '' Extracting dir ''),
                    Ev_print Stdout (Name (bytes ''a/b/'')), Ev_print Stdout newline,
                    Ev_mkdir (bytes ''a/b'') 448 False, Ev_mkdir (bytes ''a'') 493 True,
                    Ev_mkdir (bytes ''a/b'') 448 True]\<rparr>))"
proof -
  let ?pr = "\<lambda>a n. \<lparr>stream = [], fs = Map.empty, handles = [], next_handle = 0, wlimit = [],
      trace = [Ev_print Stdout (Text a), Ev_print Stdout (Name n), Ev_print Stdout newline]\<rparr>"
  have pr: "puts (Name n) (fputs (Text a) Stdout (initial_world [])) = ?pr a n" for a n
    by (simp add: puts_def fputs_def log_def initial_world_def)
  have n0: "0 \<in> set (take 100 nested_file_header)" "0 \<in> set (take 100 nested_dir_header)"
    by (simp_all add: nested_file_header_def nested_dir_header_def ustar_header_def bytes_def)
  have "length (bytes ''d/f.txt'') < 100" by (simp add: bytes_def)
  from header_buffer[OF this] obtain q where
    b: "nested_file_header @ [0, 0] = bytes ''d/f.txt'' @ 0 # q"
    unfolding nested_file_header_def by blast
  have "length (bytes ''a/b/'') < 100" by (simp add: bytes_def)
  from header_buffer[OF this] obtain q' where
    b': "nested_dir_header @ [0, 0] = bytes ''a/b/'' @ 0 # q'"
    unfolding nested_dir_header_def by blast
  have m: "parseoct (drop 100 (nested_file_header @ [0, 0])) 8 = 420"
    "parseoct (drop 100 (nested_dir_header @ [0, 0])) 8 = 448"
    using parseoct_prefix[of 8 "drop 100 nested_file_header" "[0, 0]"]
      parseoct_prefix[of 8 "drop 100 nested_dir_header" "[0, 0]"]
    by (simp_all add: example_lengths example_modes)
  have c: "cstr (bytes ''d/f.txt'' @ 0 # q) = bytes ''d/f.txt''"
    "cstr (bytes ''a/b/'' @ 0 # q') = bytes ''a/b/''"
    by (simp_all add: bytes_def cstr_def)
  have f: "(nested_file_header @ [0, 0]) ! 156 \<notin> {0x31, 0x32, 0x33, 0x34, 0x35, 0x36}"
    "(nested_dir_header @ [0, 0]) ! 156 = 0x35"
    by (simp_all add: nth_append example_lengths example_flags)
  have d: "dispatch (nested_file_header @ [0, 0]) 0 None (initial_world []) =
        Some (0, Some 0, bytes ''d/f.txt'' @ 0 # q,
          \<lparr>stream = [], fs = [bytes ''d'' \<mapsto> Dir 493, bytes ''d/f.txt'' \<mapsto> File []],
           handles = [(0, bytes ''d/f.txt'')], next_handle = 1, wlimit = [],
           trace = [Ev_print Stdout (Text '' Extracting file ''),
                    Ev_print Stdout (Name (bytes ''d/f.txt'')), Ev_print Stdout newline,
                    Ev_fopen (bytes ''d/f.txt'') None, Ev_mkdir (bytes ''d'') 493 True,
                    Ev_fopen (bytes ''d/f.txt'') (Some 0)]\<rparr>)"
    unfolding dispatch_file[OF f(1)] m
    unfolding b c pr
    by (subst create_file_nested) simp_all
  have e: "dispatch (nested_dir_header @ [0, 0]) 1000 None (initial_world []) =
        Some (0, None, bytes ''a/b'' @ 0 # 0 # q',
          \<lparr>stream = [], fs = [bytes ''a'' \<mapsto> Dir 493, bytes ''a/b'' \<mapsto> Dir 448],
           handles = [], next_handle = 0, wlimit = [],
           trace = [Ev_print Stdout (Text '' Extracting dir ''),
                    Ev_print Stdout (Name (bytes ''a/b/'')), Ev_print Stdout newline,
                    Ev_mkdir (bytes ''a/b'') 448 False, Ev_mkdir (bytes ''a'') 493 True,
                    Ev_mkdir (bytes ''a/b'') 448 True]\<rparr>)"
    unfolding dispatch_directory[OF f(2)] m
    unfolding b' c pr
    by (subst create_dir_nested) simp_all
  from creation_path[OF example_lengths(7) n0(1) d] creation_path[OF example_lengths(8) n0(2) e]
  show ?thesis
    using d e by (simp add: example_names)
qed

text \<open>
  Where the path is not the string of the name field. The directory \<open>sub/\<close> is created at
  \<open>sub\<close>. The file whose name fills the 100 bytes of the field is opened at the name
  followed by the digits of the mode field. The file \<open>a//c.txt\<close> beside a regular file
  \<open>a\<close>: the bootstrap cuts the buffer at the first separator for good, the retry opens
  \<open>a\<close> and truncates it. The directory \<open>a//b\<close>: the retry is on \<open>a\<close>. And for the
  directory with an empty name \<^verbatim>\<open>create_dir\<close> reads before the start of the buffer.
\<close>

theorem creation_path_counterexample:
  "name_field sub_header = bytes ''sub/'' \<and>
   fst (one_entry Map.empty sub_header) = None \<and>
   mkdir_paths (trace (snd (snd (one_entry Map.empty sub_header)))) = [bytes ''sub''] \<and>
   name_field long_file_header = replicate 100 0x78 \<and>
   fst (one_entry Map.empty long_file_header) = None \<and>
   fopen_paths (trace (snd (snd (one_entry Map.empty long_file_header)))) =
     [replicate 100 0x78 @ bytes ''0000644''] \<and>
   name_field double_file_header = bytes ''a//c.txt'' \<and>
   fst (one_entry [bytes ''a'' \<mapsto> File (bytes ''old'')] double_file_header) = None \<and>
   fopen_paths (trace (snd (snd
       (one_entry [bytes ''a'' \<mapsto> File (bytes ''old'')] double_file_header)))) =
     [bytes ''a//c.txt'', bytes ''a''] \<and>
   fs (snd (snd (one_entry [bytes ''a'' \<mapsto> File (bytes ''old'')] double_file_header))) =
     [bytes ''a'' \<mapsto> File []] \<and>
   name_field double_dir_header = bytes ''a//b'' \<and>
   fst (one_entry Map.empty double_dir_header) = None \<and>
   mkdir_paths (trace (snd (snd (one_entry Map.empty double_dir_header)))) =
     [bytes ''a//b'', bytes ''a'', bytes ''a''] \<and>
   name_field unnamed_dir_header = [] \<and>
   fst (one_entry Map.empty unnamed_dir_header) = Some Undefined_behaviour"
  by (simp add: sub_name example_names one_entry_sub one_entry_long_file one_entry_double_file
      one_entry_double_dir one_entry_unnamed)

section \<open>The extraction engine: payload accounting\<close>

text \<open>
  Claim C6, as amended. One pass of the payload loop that reads a full block lowers the
  remaining size by \<open>min remaining 512\<close>, the clipped write size (\<^verbatim>\<open>bytes_read\<close> has been
  set to \<^verbatim>\<open>filesize\<close> when \<^verbatim>\<open>filesize < 512\<close>). For a size held by the \<^verbatim>\<open>int\<close> counter and a
  stream that has the blocks, the loop ends without a short read after it has read
  exactly \<open>blocks size\<close> blocks, the size divided by 512 and rounded up.
\<close>

theorem payload_accounting:
  "(0 <s filesize \<and> 512 \<le> length (stream w) \<longrightarrow>
      (\<exists>f1 buff1 w1.
         payload_step path filesize f buff w =
           Inr (filesize - of_nat (min (nat (sint filesize)) 512), f1, buff1, w1) \<and>
         stream w1 = drop 512 (stream w))) \<and>
   (512 * blocks (nat (sint filesize)) \<le> length (stream w) \<longrightarrow>
      (\<exists>f' w'.
         payload_loop path filesize f buff w = (False, f', w') \<and>
         stream w' = drop (512 * blocks (nat (sint filesize))) (stream w) \<and>
         freads (trace w') = freads (trace w) + blocks (nat (sint filesize))))"
proof (intro conjI impI)
  assume a: "0 <s filesize \<and> 512 \<le> length (stream w)"
  then have pos: "0 \<le> sint filesize" by (simp add: word_sless_alt)
  have "(if filesize <s 512 then unat filesize else 512) = min (nat (sint filesize)) 512"
    using unat_nonneg_sint[OF pos] by (auto simp: word_sless_alt min_def)
  with payload_step_Inr[of w path filesize f buff] a
  show "\<exists>f1 buff1 w1.
         payload_step path filesize f buff w =
           Inr (filesize - of_nat (min (nat (sint filesize)) 512), f1, buff1, w1) \<and>
         stream w1 = drop 512 (stream w)"
    by auto
next
  assume "512 * blocks (nat (sint filesize)) \<le> length (stream w)"
  then show "\<exists>f' w'.
         payload_loop path filesize f buff w = (False, f', w') \<and>
         stream w' = drop (512 * blocks (nat (sint filesize))) (stream w) \<and>
         freads (trace w') = freads (trace w) + blocks (nat (sint filesize))"
    by (rule payload_loop_consumes)
qed

theorem payload_accounting_witness:
  "blocks 1000 = 2 \<and>
   fst (payload_loop [] 1000 None (replicate 514 0) (initial_world (replicate 1024 7 @ [1, 2, 3])))
     = False \<and>
   stream (snd (snd (payload_loop [] 1000 None (replicate 514 0)
     (initial_world (replicate 1024 7 @ [1, 2, 3]))))) = [1, 2, 3] \<and>
   (\<exists>f1 buff1 w1. payload_step [] 1000 None (replicate 514 0)
      (initial_world (replicate 1024 7 @ [1, 2, 3])) = Inr (488, f1, buff1, w1))"
proof -
  have b: "blocks 1000 = 2" by (simp add: blocks_def)
  have s: "nat (sint (1000 :: cint)) = 1000" by simp
  show ?thesis
    using payload_accounting[of 1000 "initial_world (replicate 1024 7 @ [1, 2, 3])" "[]" None
        "replicate 514 0"]
    unfolding s b
    by (auto simp: initial_world_def word_sless_alt)
qed

text \<open>
  With five bytes remaining, one pass leaves 0 and not \<open>5 - 512\<close>.
\<close>

theorem payload_decrement_counterexample:
  "payload_step [] 5 None (replicate 514 0) (initial_world (replicate 512 0)) =
     Inr (0, None, replicate 514 0,
          \<lparr>stream = [], fs = Map.empty, handles = [], next_handle = 0, wlimit = [],
           trace = [Ev_fread 512]\<rparr>) \<and>
   (0 :: cint) \<noteq> 5 - 512"
  by (simp add: payload_step_def fread_def initial_world_def log_def word_sless_alt
      replicate_add[symmetric])

section \<open>The extraction engine: end of archive\<close>

text \<open>
  Claim C7. When the block read as a header is all zero, the loop of \<^verbatim>\<open>untar\<close> returns
  at once: it has read that one block and nothing after it, it has printed the line
  \<open>End of\<close> with the archive's name, and the file system and the handles are as before.
  The loop is in this state at every header, the first or a later one.
\<close>

theorem zero_block_terminal:
  assumes "take 512 (stream w) = replicate 512 0"
  shows "untar_loop path f w =
     (End_of_archive, f,
      puts (Name path) (fputs (Text ''End of '') Stdout
        (log (Ev_fread 512) (w\<lparr>stream := drop 512 (stream w)\<rparr>))))"
  by (rule untar_loop_zero_block[OF assms])

theorem zero_block_terminal_witness:
  "untar_loop [0x61] None (initial_world (replicate 512 0 @ [1, 2, 3])) =
     (End_of_archive, None,
      \<lparr>stream = [1, 2, 3], fs = Map.empty, handles = [], next_handle = 0, wlimit = [],
       trace = [Ev_fread 512, Ev_print Stdout (Text ''End of ''), Ev_print Stdout (Name [0x61]),
                Ev_print Stdout newline]\<rparr>)"
  using zero_block_terminal[of "initial_world (replicate 512 0 @ [1, 2, 3])" "[0x61]" None]
  by (simp add: initial_world_def puts_def fputs_def log_def)

section \<open>The extraction engine: directories\<close>




section \<open>The extraction engine: short writes\<close>

text \<open>
  Claim C9. Take the payload loop at the start of any pass, with an open handle \<open>h\<close> on
  the file \<open>p\<close>, and let the write of this pass be short (the limit \<open>l\<close> is below the
  number of bytes asked for). Then the loop ends without a short read after it has read
  every remaining block of the entry; the handle is closed and the variable is NULL; the
  file holds the \<open>l\<close> bytes written and nothing more; the trace shows the short write, the
  diagnostic, the \<^verbatim>\<open>fclose\<close> and after them only reads. And when the payload loop of an entry
  ends this way, \<^verbatim>\<open>untar\<close> goes on to read the next header.
\<close>

theorem short_write_continues:
  "(0 <s filesize \<and> 512 * blocks (nat (sint filesize)) \<le> length (stream w) \<and>
    wlimit w = l # ls \<and> l < min (nat (sint filesize)) 512 \<and>
    map_of (handles w) h = Some p \<and> fs w p = Some (File c)
    \<longrightarrow> (\<exists>w'. payload_loop path filesize (Some h) buff w = (False, None, w') \<and>
           stream w' = drop (512 * blocks (nat (sint filesize))) (stream w) \<and>
           handles w' = filter (\<lambda>(h', q). h' \<noteq> h) (handles w) \<and>
           fs w' = (fs w)(p \<mapsto> File (c @ take l (stream w))) \<and>
           trace w' = trace w @
             [Ev_fread 512, Ev_fwrite h (take (min (nat (sint filesize)) 512) (stream w)) l,
              Ev_print Stderr (Text ''Failed write\<newline>''), Ev_fclose h] @
             replicate (blocks (nat (sint filesize)) - 1) (Ev_fread 512))) \<and>
   (512 \<le> length (stream v) \<and> verify_checksum (take 512 (stream v)) \<and>
    dispatch (take 512 (stream v) @ [0, 0]) (parseoct (drop 124 (take 512 (stream v))) 12) f0
      (log (Ev_fread 512) (v\<lparr>stream := drop 512 (stream v)\<rparr>)) = Some (size0, f1, buff1, w2) \<and>
    payload_loop path size0 f1 buff1 w2 = (False, None, w3)
    \<longrightarrow> untar_entry path f0 v = (None, None, w3) \<and>
        untar_loop path f0 v = untar_loop path None w3)"
proof (intro conjI impI)
  assume a: "0 <s filesize \<and> 512 * blocks (nat (sint filesize)) \<le> length (stream w) \<and>
    wlimit w = l # ls \<and> l < min (nat (sint filesize)) 512 \<and>
    map_of (handles w) h = Some p \<and> fs w p = Some (File c)"
  define s where "s = nat (sint filesize)"
  define filesize' where
    "filesize' = filesize - of_nat (if filesize <s 512 then unat filesize else 512)"
  define buff1 where "buff1 = take 512 (stream w) @ drop 512 buff"
  define w1 where "w1 = w\<lparr>stream := drop 512 (stream w),
            fs := (fs w)(p \<mapsto> File (c @ take l (stream w))),
            handles := filter (\<lambda>(h', q). h' \<noteq> h) (handles w),
            wlimit := ls,
            trace := trace w @
              [Ev_fread 512, Ev_fwrite h (take (min s 512) (stream w)) l,
               Ev_print Stderr (Text ''Failed write\<newline>''), Ev_fclose h]\<rparr>"
  from a have pos: "0 <s filesize" by simp
  from a have len0: "512 * blocks s \<le> length (stream w)" by (simp add: s_def)
  have spos: "0 < s" using pos by (simp add: s_def word_sless_alt)
  have bl: "blocks s = Suc (blocks (s - min s 512))" by (rule blocks_step[OF spos])
  have len: "512 \<le> length (stream w)"
    using len0 bl by simp
  have s': "nat (sint filesize') = s - min s 512"
    unfolding filesize'_def sint_step[OF pos] s_def by simp
  have step: "payload_step path filesize (Some h) buff w = Inr (filesize', None, buff1, w1)"
    using payload_step_short_write[OF pos len, of l ls h p c path buff] a
    by (simp add: filesize'_def buff1_def w1_def s_def)
  have len1: "512 * blocks (nat (sint filesize')) \<le> length (stream w1)"
    using len0 bl by (simp add: s' w1_def)
  have "payload_loop path filesize (Some h) buff w = payload_loop path filesize' None buff1 w1"
    using pos step by (subst payload_loop.simps) simp
  also have "\<dots> = (False, None,
      w1\<lparr>stream := drop (512 * blocks (nat (sint filesize'))) (stream w1),
         trace := trace w1 @ replicate (blocks (nat (sint filesize'))) (Ev_fread 512)\<rparr>)"
    by (rule payload_loop_drain[OF len1])
  finally show "\<exists>w'. payload_loop path filesize (Some h) buff w = (False, None, w') \<and>
           stream w' = drop (512 * blocks (nat (sint filesize))) (stream w) \<and>
           handles w' = filter (\<lambda>(h', q). h' \<noteq> h) (handles w) \<and>
           fs w' = (fs w)(p \<mapsto> File (c @ take l (stream w))) \<and>
           trace w' = trace w @
             [Ev_fread 512, Ev_fwrite h (take (min (nat (sint filesize)) 512) (stream w)) l,
              Ev_print Stderr (Text ''Failed write\<newline>''), Ev_fclose h] @
             replicate (blocks (nat (sint filesize)) - 1) (Ev_fread 512)"
    by (simp add: s' bl w1_def s_def[symmetric] add.commute)
next
  assume b: "512 \<le> length (stream v) \<and> verify_checksum (take 512 (stream v)) \<and>
    dispatch (take 512 (stream v) @ [0, 0]) (parseoct (drop 124 (take 512 (stream v))) 12) f0
      (log (Ev_fread 512) (v\<lparr>stream := drop 512 (stream v)\<rparr>)) = Some (size0, f1, buff1, w2) \<and>
    payload_loop path size0 f1 buff1 w2 = (False, None, w3)"
  then have e: "untar_entry path f0 v = (None, None, w3)"
    by (simp add: untar_entry_header)
  then show "untar_entry path f0 v = (None, None, w3)" .
  from e show "untar_loop path f0 v = untar_loop path None w3"
    by (subst untar_loop.simps) simp
qed


theorem short_write_continues_witness:
  "fst (untar_loop [] None ((initial_world hello_archive)\<lparr>wlimit := [3]\<rparr>)) = End_of_archive \<and>
   fs (snd (snd (untar_loop [] None ((initial_world hello_archive)\<lparr>wlimit := [3]\<rparr>))))
     (bytes ''a.txt'') = Some (File (bytes ''hel'')) \<and>
   handles (snd (snd (untar_loop [] None ((initial_world hello_archive)\<lparr>wlimit := [3]\<rparr>)))) = [] \<and>
   stream (snd (snd (untar_loop [] None ((initial_world hello_archive)\<lparr>wlimit := [3]\<rparr>)))) = []"
proof -
  define v where "v = (initial_world hello_archive)\<lparr>wlimit := [3]\<rparr>"
  define v1 where "v1 = puts (Name (bytes ''a.txt'')) (fputs (Text '' Extracting file '') Stdout
      (log (Ev_fread 512) (v\<lparr>stream := drop 512 (stream v)\<rparr>)))"
  define w2 where "w2 = snd (fopen_w (bytes ''a.txt'') v1)"
  have sv: "stream v = hello_archive" by (simp add: v_def initial_world_def)
  have len: "512 \<le> length (stream v)" by (simp add: sv hello_archive_def hello_length)
  have hd: "take 512 (stream v) = hello_header" by (simp add: sv hello_archive_head)
  have fo: "fopen_w (bytes ''a.txt'') v1 = (Some 0, w2)"
    by (simp add: w2_def fopen_w_def v1_def v_def initial_world_def parent_ok_def parent_def bytes_def)
  have w2: "stream w2 = bytes ''hello'' @ replicate 507 0 @ replicate 512 0" "wlimit w2 = [3]"
    "handles w2 = [(0, bytes ''a.txt'')]" "fs w2 = [bytes ''a.txt'' \<mapsto> File []]"
    by (simp_all add: w2_def fopen_w_def v1_def v_def initial_world_def parent_ok_def parent_def
        bytes_def hello_archive_head[unfolded bytes_def])
  have nm: "cstr (hello_header @ [0, 0]) = bytes ''a.txt''"
    using hello_name by simp
  have d: "dispatch (take 512 (stream v) @ [0, 0]) (parseoct (drop 124 (take 512 (stream v))) 12) None
      (log (Ev_fread 512) (v\<lparr>stream := drop 512 (stream v)\<rparr>)) =
      Some (5, Some 0, hello_header @ [0, 0], w2)"
    unfolding hd hello_size
    using hello_flag hello_length fo
    by (simp add: dispatch_regular nth_append hello_name v1_def[symmetric] create_file_direct)
  have b5: "blocks (nat (sint (5 :: cint))) = 1" by (simp add: blocks_def)
  from short_write_continues[where filesize = 5 and w = w2 and l = 3 and ls = "[]" and h = 0
      and p = "bytes ''a.txt''" and c = "[]" and path = "[]" and buff = "hello_header @ [0, 0]",
      THEN conjunct1]
  obtain w3 where pl: "payload_loop [] 5 (Some 0) (hello_header @ [0, 0]) w2 = (False, None, w3)"
    and w3: "stream w3 = replicate 512 0" "handles w3 = []"
      "fs w3 = [bytes ''a.txt'' \<mapsto> File (bytes ''hel'')]"
    unfolding b5 by (auto simp: w2 word_sless_alt bytes_def)
  from short_write_continues[where v = v and ?f0.0 = None and ?size0.0 = 5 and ?f1.0 = "Some 0"
      and ?buff1.0 = "hello_header @ [0, 0]" and ?w2.0 = w2 and ?w3.0 = w3 and path = "[]",
      THEN conjunct2]
  have "untar_loop [] None v = untar_loop [] None w3"
    using len hd hello_cksum d pl by simp
  also have "\<dots> = (End_of_archive, None,
      puts (Name []) (fputs (Text ''End of '') Stdout
        (log (Ev_fread 512) (w3\<lparr>stream := drop 512 (stream w3)\<rparr>))))"
    by (rule untar_loop_zero_block) (simp add: w3)
  finally show ?thesis
    by (simp add: v_def[symmetric] w3)
qed

section \<open>The buffer of create_dir\<close>

text \<open>
  Claim C10 at the path \<open>a//b\<close> in an empty directory. The first \<^verbatim>\<open>mkdir\<close> fails, the
  recursive call on \<open>a/\<close> strips the separator at index 1 for good, and the caller puts
  back only the one at index 2: the buffer returns as \<open>a\<close>, NUL, \<open>/b\<close>, the retry is made
  on \<open>a\<close> and fails, and \<open>a//b\<close> is not created.
\<close>

theorem create_dir_double_separator:
  "create_dir (bytes ''a//b'' @ [0]) 493 (initial_world []) =
     Some (bytes ''a'' @ [0] @ bytes ''/b'' @ [0],
       \<lparr>stream = [], fs = [bytes ''a'' \<mapsto> Dir 493], handles = [], next_handle = 0, wlimit = [],
        trace = [Ev_mkdir (bytes ''a//b'') 493 False, Ev_mkdir (bytes ''a'') 493 True,
                 Ev_mkdir (bytes ''a'') 493 False,
                 Ev_print Stderr (Text ''Could not create directory ''),
                 Ev_print Stderr (Name (bytes ''a'')), Ev_print Stderr newline]\<rparr>)"
proof -
  let ?w1 = "log (Ev_mkdir (bytes ''a//b'') 493 False) (initial_world [])"
  have inner: "create_dir (bytes ''a/'' @ [0] @ bytes ''b'' @ [0]) 493 ?w1 =
      Some (bytes ''a'' @ [0, 0] @ bytes ''b'' @ [0],
            log (Ev_mkdir (bytes ''a'') 493 True) (?w1\<lparr>fs := [bytes ''a'' \<mapsto> Dir 493]\<rparr>))"
    by (subst create_dir.simps)
       (simp add: bytes_def strlen_def cstr_def strip_trailing_def mkdir_def parent_ok_def
          parent_def initial_world_def log_def)
  show ?thesis
    apply (subst create_dir.simps)
    apply (simp add: bytes_def strlen_def cstr_def strip_trailing_def mkdir_def parent_ok_def
          parent_def strrchr_def inner[unfolded bytes_def, simplified])
    apply (simp add: initial_world_def log_def report_failure_def fputs_def cstr_def)
    done
qed

end
